theory Spec2Isabelle
  imports Main
begin

section \<open>Data model of \<open>ezdxf/addons/browser/data.py\<close>\<close>

text \<open>
  A \<open>Tags\<close> object is a Python list of tag objects. The indices of \<open>data.py\<close> associate
  records by object identity (\<open>id(entity)\<close>, \<open>is\<close>), so a record is modelled by its
  address (\<open>ref\<close>) and a heap gives the tag list stored at that address. A tag object
  carries its own identity \<open>tag_id\<close> (compared by \<open>is\<close> in \<open>HandleIndex.get_handle\<close>), its
  group code and its value.
\<close>

type_synonym ref = nat

datatype error = IndexError | TypeError | AttributeError

text \<open>
  Tag values: a string, an integer, a float or a vertex. The code converts a float or a
  vertex only with \<open>str()\<close>, so each is represented by the text \<open>str()\<close> returns for it.
\<close>

datatype dxfvalue = StrVal string | IntVal int | FloatVal string | VertexVal string

record DXFTag =
  tag_id :: nat
  tag_code :: int
  tag_value :: dxfvalue

type_synonym heap = "ref \<Rightarrow> DXFTag list"

text \<open>
  Python's \<open>xs[i]\<close>: an index below zero is taken from the end of the list; \<open>None\<close>
  stands for the IndexError raised outside \<open>-len(xs) .. len(xs) - 1\<close>.
\<close>

definition py_index :: "'a list \<Rightarrow> int \<Rightarrow> 'a option" where
  "py_index xs i =
     (if 0 \<le> i \<and> i < int (length xs) then Some (xs ! nat i)
      else if i < 0 \<and> - int (length xs) \<le> i then Some (xs ! nat (int (length xs) + i))
      else None)"

section \<open>EntityHistory\<close>

record EntityHistory =
  eh_history :: "ref list"
  eh_index :: int
  eh_time_travel :: "ref list"

definition EntityHistory_init :: EntityHistory where
  "EntityHistory_init = \<lparr>eh_history = [], eh_index = 0, eh_time_travel = []\<rparr>"

definition EntityHistory_append :: "ref \<Rightarrow> EntityHistory \<Rightarrow> EntityHistory" where
  "EntityHistory_append entity s =
     (let s1 = (if eh_time_travel s \<noteq> []
                then s\<lparr>eh_history := eh_history s @ eh_time_travel s, eh_time_travel := []\<rparr>
                else s);
          count = length (eh_history s1)
      in if count \<noteq> 0 \<and> last (eh_history s1) = entity then s1
         else s1\<lparr>eh_index := int count, eh_history := eh_history s1 @ [entity]\<rparr>)"

definition EntityHistory_time_wrap ::
  "int \<Rightarrow> EntityHistory \<Rightarrow> error + (ref \<times> EntityHistory)" where
  "EntityHistory_time_wrap index s =
     (case py_index (eh_history s) index of
        None \<Rightarrow> Inl IndexError
      | Some entity \<Rightarrow>
          Inr (entity, s\<lparr>eh_index := index, eh_time_travel := eh_time_travel s @ [entity]\<rparr>))"

definition EntityHistory_back :: "EntityHistory \<Rightarrow> error + (ref option \<times> EntityHistory)" where
  "EntityHistory_back s =
     (if eh_history s \<noteq> [] then
        (let index = eh_index s - 1
         in if index \<ge> 0 then
              (case EntityHistory_time_wrap index s of
                 Inl e \<Rightarrow> Inl e
               | Inr (entity, s') \<Rightarrow> Inr (Some entity, s'))
            else Inr (Some (hd (eh_history s)), s))
      else Inr (None, s))"

definition EntityHistory_forward :: "EntityHistory \<Rightarrow> error + (ref option \<times> EntityHistory)" where
  "EntityHistory_forward s =
     (if eh_history s \<noteq> [] then
        (let index = eh_index s + 1
         in if index < int (length (eh_history s)) then
              (case EntityHistory_time_wrap index s of
                 Inl e \<Rightarrow> Inl e
               | Inr (entity, s') \<Rightarrow> Inr (Some entity, s'))
            else Inr (Some (last (eh_history s)), s))
      else Inr (None, s))"

definition EntityHistory_content :: "EntityHistory \<Rightarrow> ref list" where
  "EntityHistory_content s = eh_history s"

section \<open>LineIndex\<close>

text \<open>
  A \<open>SectionDict\<close> is a Python dict from section name to the list of the section's
  records; dicts keep insertion order, so it is an association list in file order.
\<close>

type_synonym SectionDict = "(string \<times> ref list) list"

text \<open>
  \<open>index.sort()\<close> in \<open>build_line_index\<close> sorts tuples \<open>(start_line_number, entity)\<close>.
  Python compares tuples item by item: the first pair of items that is not equal decides,
  and two tuples without such a pair are not less than each other. The second item is a
  \<open>Tags\<close> object.
\<close>

text \<open>
  Modelled from the spec: the classes \<open>Tags\<close> (\<open>ezdxf/lldxf/tags.py\<close>) and \<open>DXFTag\<close>
  (\<open>ezdxf/lldxf/types.py\<close>) are imported by \<open>data.py\<close> but are not among the sources. The
  spec describes a record as an ordered sequence of tags without logic of its own, that
  is a Python list, so two records compare as lists do: an object equals itself, lists of
  different length are unequal, and \<open><\<close> is decided at the first position holding
  unequal items, or by the lengths when there is none. How two tag objects compare is
  left open: \<open>tag_eq\<close> and \<open>tag_lt\<close> are parameters (\<open>tag_lt\<close> may raise).
\<close>

fun tags_eq :: "(DXFTag \<Rightarrow> DXFTag \<Rightarrow> bool) \<Rightarrow> DXFTag list \<Rightarrow> DXFTag list \<Rightarrow> bool" where
  "tags_eq tag_eq [] [] = True"
| "tags_eq tag_eq (x # xs) (y # ys) = (length xs = length ys \<and> tag_eq x y \<and> tags_eq tag_eq xs ys)"
| "tags_eq tag_eq _ _ = False"

fun tags_lt ::
  "(DXFTag \<Rightarrow> DXFTag \<Rightarrow> bool) \<Rightarrow> (DXFTag \<Rightarrow> DXFTag \<Rightarrow> error + bool) \<Rightarrow>
   DXFTag list \<Rightarrow> DXFTag list \<Rightarrow> error + bool" where
  "tags_lt tag_eq tag_lt [] [] = Inr False"
| "tags_lt tag_eq tag_lt [] (y # ys) = Inr True"
| "tags_lt tag_eq tag_lt (x # xs) [] = Inr False"
| "tags_lt tag_eq tag_lt (x # xs) (y # ys) =
     (if tag_eq x y then tags_lt tag_eq tag_lt xs ys else tag_lt x y)"

definition tuple_lt ::
  "(DXFTag \<Rightarrow> DXFTag \<Rightarrow> bool) \<Rightarrow> (DXFTag \<Rightarrow> DXFTag \<Rightarrow> error + bool) \<Rightarrow> heap \<Rightarrow>
   int \<times> ref \<Rightarrow> int \<times> ref \<Rightarrow> error + bool" where
  "tuple_lt tag_eq tag_lt h a b =
     (if fst a \<noteq> fst b then Inr (fst a < fst b)
      else if snd a = snd b \<or> tags_eq tag_eq (h (snd a)) (h (snd b)) then Inr False
      else tags_lt tag_eq tag_lt (h (snd a)) (h (snd b)))"

text \<open>
  \<open>list.sort()\<close> is stable and asks only for \<open><\<close>. It is modelled as a stable insertion
  sort: each element is compared with its successor first, so a list whose neighbours are
  all in order costs one comparison per neighbouring pair, as in CPython's run detection.
  A comparison that raises ends the sort with that error.
\<close>

fun sort_insert :: "('a \<Rightarrow> 'a \<Rightarrow> error + bool) \<Rightarrow> 'a \<Rightarrow> 'a list \<Rightarrow> error + 'a list" where
  "sort_insert lt x [] = Inr [x]"
| "sort_insert lt x (y # ys) =
     (case lt y x of
        Inl e \<Rightarrow> Inl e
      | Inr b \<Rightarrow>
          if b then (case sort_insert lt x ys of Inl e \<Rightarrow> Inl e | Inr zs \<Rightarrow> Inr (y # zs))
          else Inr (x # y # ys))"

fun list_sort :: "('a \<Rightarrow> 'a \<Rightarrow> error + bool) \<Rightarrow> 'a list \<Rightarrow> error + 'a list" where
  "list_sort lt [] = Inr []"
| "list_sort lt (x # xs) =
     (case list_sort lt xs of Inl e \<Rightarrow> Inl e | Inr ys \<Rightarrow> sort_insert lt x ys)"

text \<open>
  The two nested loops of \<open>build_line_index\<close>: the state is the index built so far and
  \<open>start_line_number\<close>.
\<close>

definition line_index_entity ::
  "heap \<Rightarrow> ref \<Rightarrow> (int \<times> ref) list \<times> int \<Rightarrow> (int \<times> ref) list \<times> int" where
  "line_index_entity h entity st =
     (case st of (index, start_line_number) \<Rightarrow>
        (index @ [(start_line_number, entity)],
         start_line_number + int (length (h entity)) * 2))"

definition line_index_section ::
  "heap \<Rightarrow> string \<times> ref list \<Rightarrow> (int \<times> ref) list \<times> int \<Rightarrow> (int \<times> ref) list \<times> int" where
  "line_index_section h item st =
     (case fold (line_index_entity h) (snd item) st of
        (index, start_line_number) \<Rightarrow> (index, start_line_number + 2))"

definition LineIndex_build_line_index ::
  "(DXFTag \<Rightarrow> DXFTag \<Rightarrow> bool) \<Rightarrow> (DXFTag \<Rightarrow> DXFTag \<Rightarrow> error + bool) \<Rightarrow> heap \<Rightarrow>
   SectionDict \<Rightarrow> error + (int \<times> ref) list" where
  "LineIndex_build_line_index tag_eq tag_lt h sections =
     list_sort (tuple_lt tag_eq tag_lt h) (fst (fold (line_index_section h) sections ([], 1)))"

text \<open>\<open>build_entity_index\<close>: a dict from \<open>id(entity)\<close> to \<open>(line_number, entity)\<close>.\<close>

definition entity_index_entity ::
  "heap \<Rightarrow> ref \<Rightarrow> (ref \<rightharpoonup> int \<times> ref) \<times> int \<Rightarrow> (ref \<rightharpoonup> int \<times> ref) \<times> int" where
  "entity_index_entity h entity st =
     (case st of (index, line_number) \<Rightarrow>
        (index(entity \<mapsto> (line_number, entity)), line_number + int (length (h entity)) * 2))"

definition entity_index_section ::
  "heap \<Rightarrow> string \<times> ref list \<Rightarrow> (ref \<rightharpoonup> int \<times> ref) \<times> int \<Rightarrow> (ref \<rightharpoonup> int \<times> ref) \<times> int" where
  "entity_index_section h item st =
     (case fold (entity_index_entity h) (snd item) st of
        (index, line_number) \<Rightarrow> (index, line_number + 2))"

definition LineIndex_build_entity_index :: "heap \<Rightarrow> SectionDict \<Rightarrow> (ref \<rightharpoonup> int \<times> ref)" where
  "LineIndex_build_entity_index h sections =
     fst (fold (entity_index_section h) sections (Map.empty, 1))"

record LineIndex =
  li_entity_index :: "ref \<rightharpoonup> int \<times> ref"
  li_line_index :: "(int \<times> ref) list"
  li_max_line_number :: int

definition LineIndex_init ::
  "(DXFTag \<Rightarrow> DXFTag \<Rightarrow> bool) \<Rightarrow> (DXFTag \<Rightarrow> DXFTag \<Rightarrow> error + bool) \<Rightarrow> heap \<Rightarrow>
   SectionDict \<Rightarrow> error + LineIndex" where
  "LineIndex_init tag_eq tag_lt h sections =
     (case LineIndex_build_line_index tag_eq tag_lt h sections of
        Inl e \<Rightarrow> Inl e
      | Inr index \<Rightarrow>
          Inr \<lparr>li_entity_index = LineIndex_build_entity_index h sections,
               li_line_index = index,
               li_max_line_number =
                 (if index \<noteq> [] then fst (last index) + int (length (h (snd (last index)))) * 2 - 1
                  else 1)\<rparr>)"

definition LineIndex_get_start_line_for_entity :: "LineIndex \<Rightarrow> ref \<Rightarrow> int" where
  "LineIndex_get_start_line_for_entity li entity =
     (case li_entity_index li entity of Some entry \<Rightarrow> fst entry | None \<Rightarrow> 0)"

text \<open>The loop of \<open>get_entity_at_line\<close>; \<open>entity\<close> is the loop's variable of that name.\<close>

fun line_scan :: "int \<Rightarrow> ref \<Rightarrow> (int \<times> ref) list \<Rightarrow> ref" where
  "line_scan number entity [] = entity"
| "line_scan number entity ((start, e) # rest) =
     (if start > number then entity else line_scan number e rest)"

definition LineIndex_get_entity_at_line :: "LineIndex \<Rightarrow> int \<Rightarrow> ref option" where
  "LineIndex_get_entity_at_line li number =
     (case li_line_index li of
        [] \<Rightarrow> None
      | first # _ \<Rightarrow> Some (line_scan number (snd first) (li_line_index li)))"

section \<open>HandleIndex\<close>

text \<open>
  An \<open>IndexEntry\<close> object. The build links the entries into a doubly linked list by
  mutating \<open>prev_entity.next\<close>, so the entries live in a store (a list, the address of an
  entry is its position) and \<open>prev\<close>, \<open>next\<close> and the values of the dict are addresses.
\<close>

record IndexEntry =
  ie_tags :: ref
  ie_handle :: "string option"
  ie_start_line_number :: int
  ie_prev :: "nat option"
  ie_next :: "nat option"

text \<open>
  A Python dict as an association list in insertion order: storing under a key that is
  present replaces the value and keeps the key's position; \<open>dict.get\<close> is \<open>map_of\<close>.
\<close>

fun dict_set :: "('k \<times> 'v) list \<Rightarrow> 'k \<Rightarrow> 'v \<Rightarrow> ('k \<times> 'v) list" where
  "dict_set [] k v = [(k, v)]"
| "dict_set (item # d) k v = (if fst item = k then (k, v) # d else item # dict_set d k v)"

text \<open>
  \<open>str.upper()\<close> on the ASCII letters (a handle is a hexadecimal string; characters
  outside ASCII are left as they are), and the format \<open>{n:X}\<close> of a natural number:
  upper-case hexadecimal digits without leading zeros.
\<close>

definition upper_char :: "char \<Rightarrow> char" where
  "upper_char c =
     (case map_of (zip ''abcdefghijklmnopqrstuvwxyz'' ''ABCDEFGHIJKLMNOPQRSTUVWXYZ'') c of
        Some u \<Rightarrow> u
      | None \<Rightarrow> c)"

definition upper :: "string \<Rightarrow> string" where
  "upper s = map upper_char s"

definition hex_digit :: "nat \<Rightarrow> char" where
  "hex_digit d = ''0123456789ABCDEF'' ! d"

fun format_X :: "nat \<Rightarrow> string" where
  "format_X n = (if n < 16 then [hex_digit n] else format_X (n div 16) @ [hex_digit (n mod 16)])"

declare format_X.simps [simp del]

text \<open>
  The local variables of \<open>HandleIndex._build\<close> and the store of the entries created so
  far. \<open>Tags.get_handle\<close> is not among the sources: it is the parameter \<open>get_handle\<close>,
  which yields the handle of a tag list or \<open>None\<close> where the method raises \<open>ValueError\<close>.
\<close>

record build_state =
  bs_start_line_number :: int
  bs_dummy_handle :: nat
  bs_entity_index :: "(string \<times> nat) list"
  bs_prev_entity :: "nat option"
  bs_entries :: "IndexEntry list"

definition build_entity ::
  "(DXFTag list \<Rightarrow> string option) \<Rightarrow> heap \<Rightarrow> ref \<Rightarrow> build_state \<Rightarrow> build_state" where
  "build_entity get_handle h tags s =
     (let handle = upper (case get_handle (h tags) of
                            Some x \<Rightarrow> x
                          | None \<Rightarrow> CHR ''*'' # format_X (bs_dummy_handle s));
          dummy_handle = (case get_handle (h tags) of
                            Some x \<Rightarrow> bs_dummy_handle s
                          | None \<Rightarrow> bs_dummy_handle s + 1);
          new_entity = length (bs_entries s);
          entry = \<lparr>ie_tags = tags, ie_handle = Some handle,
                   ie_start_line_number = bs_start_line_number s,
                   ie_prev = bs_prev_entity s, ie_next = None\<rparr>;
          linked = (case bs_prev_entity s of
                      None \<Rightarrow> bs_entries s
                    | Some p \<Rightarrow> (bs_entries s)[p := (bs_entries s ! p)\<lparr>ie_next := Some new_entity\<rparr>])
      in \<lparr>bs_start_line_number = bs_start_line_number s + int (length (h tags)) * 2,
          bs_dummy_handle = dummy_handle,
          bs_entity_index = dict_set (bs_entity_index s) handle new_entity,
          bs_prev_entity = Some new_entity,
          bs_entries = linked @ [entry]\<rparr>)"

definition build_section ::
  "(DXFTag list \<Rightarrow> string option) \<Rightarrow> heap \<Rightarrow> string \<times> ref list \<Rightarrow> build_state \<Rightarrow> build_state" where
  "build_section get_handle h item s =
     (let s' = fold (build_entity get_handle h) (snd item) s
      in s'\<lparr>bs_start_line_number := bs_start_line_number s' + 2\<rparr>)"

definition build_init :: build_state where
  "build_init = \<lparr>bs_start_line_number = 1, bs_dummy_handle = 1, bs_entity_index = [],
                 bs_prev_entity = None, bs_entries = []\<rparr>"

record HandleIndex =
  hi_index :: "(string \<times> nat) list"
  hi_max_line_number :: int
  hi_entries :: "IndexEntry list"

definition HandleIndex_init ::
  "(DXFTag list \<Rightarrow> string option) \<Rightarrow> heap \<Rightarrow> SectionDict \<Rightarrow> HandleIndex" where
  "HandleIndex_init get_handle h sections =
     (let s = fold (build_section get_handle h) sections build_init
      in \<lparr>hi_index = bs_entity_index s,
          hi_max_line_number = bs_start_line_number s - 3,
          hi_entries = bs_entries s\<rparr>)"

definition HandleIndex_contains :: "HandleIndex \<Rightarrow> string \<Rightarrow> bool" where
  "HandleIndex_contains hi handle = (map_of (hi_index hi) (upper handle) \<noteq> None)"

text \<open>The entries in the order of \<open>_index.values()\<close>, and the records they hold.\<close>

definition HandleIndex_values :: "HandleIndex \<Rightarrow> IndexEntry list" where
  "HandleIndex_values hi = map (\<lambda>item. hi_entries hi ! snd item) (hi_index hi)"


text \<open>The scan of \<open>get_handle\<close> for the entry whose first tag is the given tag object.\<close>

fun first_tag_scan ::
  "heap \<Rightarrow> IndexEntry list \<Rightarrow> DXFTag \<Rightarrow> (string \<times> nat) list \<Rightarrow> string option" where
  "first_tag_scan h es first_tag [] = None"
| "first_tag_scan h es first_tag (item # items) =
     (let tags = h (ie_tags (es ! snd item))
      in if tags \<noteq> [] \<and> tag_id (hd tags) = tag_id first_tag then Some (fst item)
         else first_tag_scan h es first_tag items)"

definition HandleIndex_get_handle ::
  "(DXFTag list \<Rightarrow> string option) \<Rightarrow> heap \<Rightarrow> HandleIndex \<Rightarrow> ref \<Rightarrow> string option" where
  "HandleIndex_get_handle get_handle h hi entity =
     (if h entity = [] then None
      else case get_handle (h entity) of
             Some handle \<Rightarrow> Some handle
           | None \<Rightarrow> first_tag_scan h (hi_entries hi) (hd (h entity)) (hi_index hi))"

text \<open>
  \<open>next_entity\<close> and \<open>previous_entity\<close> read \<open>dxf_entity.next\<close> on the result of
  \<open>self._index.get(handle)\<close>, which is \<open>None\<close> for a handle that is not a key: Python
  raises AttributeError there.
\<close>

definition HandleIndex_next_entity ::
  "(DXFTag list \<Rightarrow> string option) \<Rightarrow> heap \<Rightarrow> HandleIndex \<Rightarrow> ref \<Rightarrow> error + ref" where
  "HandleIndex_next_entity get_handle h hi entity =
     (case HandleIndex_get_handle get_handle h hi entity of
        None \<Rightarrow> Inr entity
      | Some handle \<Rightarrow>
          (case map_of (hi_index hi) handle of
             None \<Rightarrow> Inl AttributeError
           | Some dxf_entity \<Rightarrow>
               (case ie_next (hi_entries hi ! dxf_entity) of
                  Some next_entity \<Rightarrow> Inr (ie_tags (hi_entries hi ! next_entity))
                | None \<Rightarrow> Inr entity)))"


text \<open>The loop of \<open>HandleIndex.get_entity_at_line\<close>; \<open>tags\<close> is its variable of that name.\<close>

fun entry_scan :: "int \<Rightarrow> ref option \<Rightarrow> IndexEntry list \<Rightarrow> ref option" where
  "entry_scan number tags [] = tags"
| "entry_scan number tags (entry # rest) =
     (if ie_start_line_number entry > number then tags
      else entry_scan number (Some (ie_tags entry)) rest)"

definition HandleIndex_get_entity_at_line :: "HandleIndex \<Rightarrow> int \<Rightarrow> ref option" where
  "HandleIndex_get_entity_at_line hi number = entry_scan number None (HandleIndex_values hi)"

section \<open>SearchIndex\<close>

text \<open>
  \<open>tag_type\<close> (\<open>ezdxf/lldxf/types.py\<close>) maps a group code to the Python type of its
  value; it is not among the sources and is a parameter of the model.
\<close>

datatype pytype = PyStr | PyInt | PyFloat | PyPoint

record SearchIndex =
  si_entities :: "ref list"
  si_current_entity_index :: int
  si_current_tag_index :: int
  si_search_term :: "string option"
  si_search_term_lower :: "string option"
  si_backward :: bool
  si_end_of_index :: bool
  si_case_insensitive :: bool
  si_whole_words :: bool
  si_numbers :: bool
  si_regex :: bool

text \<open>
  \<open>str.lower()\<close> on the ASCII letters, \<open>str(n)\<close> of an integer, \<open>str.split()\<close> at runs of
  white space, and \<open>a in b\<close> on strings.
\<close>

definition lower_char :: "char \<Rightarrow> char" where
  "lower_char c =
     (case map_of (zip ''ABCDEFGHIJKLMNOPQRSTUVWXYZ'' ''abcdefghijklmnopqrstuvwxyz'') c of
        Some l \<Rightarrow> l
      | None \<Rightarrow> c)"

definition lower :: "string \<Rightarrow> string" where
  "lower s = map lower_char s"

definition dec_digit :: "nat \<Rightarrow> char" where
  "dec_digit d = ''0123456789'' ! d"

fun str_nat :: "nat \<Rightarrow> string" where
  "str_nat n = (if n < 10 then [dec_digit n] else str_nat (n div 10) @ [dec_digit (n mod 10)])"

declare str_nat.simps [simp del]

definition str_int :: "int \<Rightarrow> string" where
  "str_int i = (if i < 0 then CHR ''-'' # str_nat (nat (- i)) else str_nat (nat i))"

fun py_str :: "dxfvalue \<Rightarrow> string" where
  "py_str (StrVal s) = s"
| "py_str (IntVal i) = str_int i"
| "py_str (FloatVal t) = t"
| "py_str (VertexVal t) = t"

definition is_space :: "char \<Rightarrow> bool" where
  "is_space c =
     (c \<in> set [CHR 0x09, CHR 0x0A, CHR 0x0B, CHR 0x0C, CHR 0x0D, CHR 0x1C, CHR 0x1D, CHR 0x1E,
                CHR 0x1F, CHR 0x20, CHR 0x85, CHR 0xA0])"

fun split_words :: "string \<Rightarrow> string \<Rightarrow> string list" where
  "split_words word [] = (if word = [] then [] else [word])"
| "split_words word (c # cs) =
     (if is_space c then (if word = [] then split_words [] cs else word # split_words [] cs)
      else split_words (word @ [c]) cs)"

definition py_split :: "string \<Rightarrow> string list" where
  "py_split v = split_words [] v"

fun is_substring :: "string \<Rightarrow> string \<Rightarrow> bool" where
  "is_substring t [] = (t = [])"
| "is_substring t (c # cs) = (take (length t) (c # cs) = t \<or> is_substring t cs)"

text \<open>
  \<open>_match\<close>. At a code of string type the value is used as a string: a value that is not
  one has no \<open>lower\<close> or \<open>split\<close> (AttributeError); \<open>in\<close> raises TypeError on a number
  and finds no string among the coordinates of a vertex.
\<close>

definition SearchIndex_match ::
  "(int \<Rightarrow> pytype) \<Rightarrow> SearchIndex \<Rightarrow> int \<Rightarrow> dxfvalue \<Rightarrow> error + bool" where
  "SearchIndex_match tag_type s code value =
     (if tag_type code \<noteq> PyStr \<and> \<not> si_numbers s then Inr False
      else
        (case (if tag_type code \<noteq> PyStr then StrVal (py_str value) else value) of
           StrVal v \<Rightarrow>
             (let search_term = (if si_case_insensitive s then si_search_term_lower s
                                 else si_search_term s);
                  v' = (if si_case_insensitive s then lower v else v)
              in case search_term of
                   None \<Rightarrow> if si_whole_words s then Inr False else Inl TypeError
                 | Some t \<Rightarrow>
                     if si_whole_words s then Inr (t \<in> set (py_split v'))
                     else Inr (is_substring t v'))
         | VertexVal t \<Rightarrow>
             if si_case_insensitive s \<or> si_whole_words s then Inl AttributeError else Inr False
         | _ \<Rightarrow>
             if si_case_insensitive s \<or> si_whole_words s then Inl AttributeError
             else Inl TypeError))"

definition SearchIndex_current_entity :: "SearchIndex \<Rightarrow> error + (ref option \<times> int)" where
  "SearchIndex_current_entity s =
     (if si_entities s \<noteq> [] \<and> \<not> si_end_of_index s then
        (case py_index (si_entities s) (si_current_entity_index s) of
           None \<Rightarrow> Inl IndexError
         | Some entity \<Rightarrow> Inr (Some entity, si_current_tag_index s))
      else Inr (None, - 1))"

definition SearchIndex_reset_cursor :: "heap \<Rightarrow> bool \<Rightarrow> SearchIndex \<Rightarrow> SearchIndex" where
  "SearchIndex_reset_cursor h backward s =
     (let s1 = s\<lparr>si_current_entity_index := 0, si_current_tag_index := 0\<rparr>;
          count = length (si_entities s)
      in if count \<noteq> 0 then
           (let s2 = s1\<lparr>si_end_of_index := False\<rparr>
            in if backward then
                 s2\<lparr>si_current_entity_index := int count - 1,
                    si_current_tag_index := int (length (h (last (si_entities s)))) - 1\<rparr>
               else s2)
         else s1\<lparr>si_end_of_index := True\<rparr>)"

definition SearchIndex_move_cursor_forward :: "heap \<Rightarrow> SearchIndex \<Rightarrow> error + SearchIndex" where
  "SearchIndex_move_cursor_forward h s =
     (if si_entities s \<noteq> [] then
        (case py_index (si_entities s) (si_current_entity_index s) of
           None \<Rightarrow> Inl IndexError
         | Some entity \<Rightarrow>
             (let tag_index = si_current_tag_index s + 1
              in if tag_index \<ge> int (length (h entity)) then
                   (let entity_index = si_current_entity_index s + 1
                    in if entity_index < int (length (si_entities s)) then
                         Inr (s\<lparr>si_current_entity_index := entity_index,
                                si_current_tag_index := 0\<rparr>)
                       else Inr (s\<lparr>si_end_of_index := True\<rparr>))
                 else Inr (s\<lparr>si_current_tag_index := tag_index\<rparr>)))
      else Inr s)"

definition SearchIndex_move_cursor_backward :: "heap \<Rightarrow> SearchIndex \<Rightarrow> error + SearchIndex" where
  "SearchIndex_move_cursor_backward h s =
     (if si_entities s \<noteq> [] then
        (let tag_index = si_current_tag_index s - 1
         in if tag_index < 0 then
              (let entity_index = si_current_entity_index s - 1
               in if entity_index \<ge> 0 then
                    (case py_index (si_entities s) entity_index of
                       None \<Rightarrow> Inl IndexError
                     | Some entity \<Rightarrow>
                         Inr (s\<lparr>si_current_entity_index := entity_index,
                                si_current_tag_index := int (length (h entity)) - 1\<rparr>))
                  else Inr (s\<lparr>si_end_of_index := True\<rparr>))
            else Inr (s\<lparr>si_current_tag_index := tag_index\<rparr>))
      else Inr s)"

definition SearchIndex_reset_search_term :: "string \<Rightarrow> SearchIndex \<Rightarrow> SearchIndex" where
  "SearchIndex_reset_search_term term s =
     s\<lparr>si_search_term := Some term, si_search_term_lower := Some (lower term)\<rparr>"

text \<open>
  One pass through the body of the \<open>while\<close> loop of \<open>_find\<close>: read the cursor, move it,
  then test the tag at the position read. \<open>backward\<close> selects the \<open>move_cursor\<close> argument.
\<close>

datatype find_step = Found "SearchIndex \<times> ref option \<times> int" | Continue SearchIndex | Raised error

definition SearchIndex_find_step ::
  "(int \<Rightarrow> pytype) \<Rightarrow> heap \<Rightarrow> bool \<Rightarrow> SearchIndex \<Rightarrow> find_step" where
  "SearchIndex_find_step tag_type h backward s =
     (case SearchIndex_current_entity s of
        Inl e \<Rightarrow> Raised e
      | Inr cur \<Rightarrow>
          (case (if backward then SearchIndex_move_cursor_backward h s
                 else SearchIndex_move_cursor_forward h s) of
             Inl e \<Rightarrow> Raised e
           | Inr s' \<Rightarrow>
               (case fst cur of
                  None \<Rightarrow> Raised TypeError
                | Some entity \<Rightarrow>
                    (case py_index (h entity) (snd cur) of
                       None \<Rightarrow> Raised IndexError
                     | Some tag \<Rightarrow>
                         (case SearchIndex_match tag_type s' (tag_code tag) (tag_value tag) of
                            Inl e \<Rightarrow> Raised e
                          | Inr b \<Rightarrow> if b then Found (s', Some entity, snd cur)
                                     else Continue s')))))"

text \<open>
  The \<open>while\<close> loop of \<open>_find\<close> ends: with every pass that continues, the cursor moves
  towards the end of the index in the direction of the search. \<open>cursor_measure\<close> is the
  measure that decreases.
\<close>

definition cursor_measure :: "heap \<Rightarrow> bool \<Rightarrow> SearchIndex \<Rightarrow> nat \<times> nat \<times> nat" where
  "cursor_measure h backward s =
     (if si_end_of_index s then 0 else 1,
      if backward then nat (si_current_entity_index s)
      else nat (int (length (si_entities s)) - si_current_entity_index s),
      if backward then nat (si_current_tag_index s)
      else (case py_index (si_entities s) (si_current_entity_index s) of
              None \<Rightarrow> 0
            | Some entity \<Rightarrow> nat (int (length (h entity)) - si_current_tag_index s)))"

lemma find_step_decreases:
  assumes "\<not> si_end_of_index s" "SearchIndex_find_step tag_type h backward s = Continue s'"
  shows "(cursor_measure h backward s', cursor_measure h backward s)
         \<in> less_than <*lex*> less_than <*lex*> less_than"
proof (cases backward)
  case True
  with assms show ?thesis
    by (auto simp: SearchIndex_find_step_def SearchIndex_current_entity_def
        SearchIndex_move_cursor_backward_def cursor_measure_def Let_def
        split: sum.splits option.splits if_splits)
next
  case False
  with assms show ?thesis
    by (auto simp: SearchIndex_find_step_def SearchIndex_current_entity_def
        SearchIndex_move_cursor_forward_def cursor_measure_def Let_def
        split: sum.splits option.splits if_splits)
qed

function SearchIndex_find_loop ::
  "(int \<Rightarrow> pytype) \<Rightarrow> heap \<Rightarrow> bool \<Rightarrow> SearchIndex \<Rightarrow>
   error + (SearchIndex \<times> ref option \<times> int)" where
  "SearchIndex_find_loop tag_type h backward s =
     (if si_end_of_index s then Inr (s, None, - 1)
      else case SearchIndex_find_step tag_type h backward s of
             Raised e \<Rightarrow> Inl e
           | Found r \<Rightarrow> Inr r
           | Continue s' \<Rightarrow> SearchIndex_find_loop tag_type h backward s')"
  by pat_completeness auto
termination
  by (relation "inv_image (less_than <*lex*> less_than <*lex*> less_than)
                  (\<lambda>(tag_type, h, backward, s). cursor_measure h backward s)")
     (auto simp only: wf_inv_image wf_less_than wf_lex_prod in_inv_image prod.case
        intro!: find_step_decreases)

declare SearchIndex_find_loop.simps [simp del]

text \<open>
  \<open>_find(move_cursor)\<close> and \<open>find\<close>. The result is the state of the index afterwards and
  the pair that the method returns; \<open>(None, - 1)\<close> is \<open>NOT_FOUND\<close>.
\<close>

definition SearchIndex_find_move ::
  "(int \<Rightarrow> pytype) \<Rightarrow> heap \<Rightarrow> bool \<Rightarrow> SearchIndex \<Rightarrow>
   error + (SearchIndex \<times> ref option \<times> int)" where
  "SearchIndex_find_move tag_type h backward s =
     (if si_entities s \<noteq> [] \<and> si_search_term s \<noteq> None \<and> si_search_term s \<noteq> Some []
         \<and> \<not> si_end_of_index s
      then SearchIndex_find_loop tag_type h backward s
      else Inr (s, None, - 1))"

definition SearchIndex_find ::
  "(int \<Rightarrow> pytype) \<Rightarrow> heap \<Rightarrow> string \<Rightarrow> bool \<Rightarrow> bool \<Rightarrow> SearchIndex \<Rightarrow>
   error + (SearchIndex \<times> ref option \<times> int)" where
  "SearchIndex_find tag_type h term backward reset_index s =
     (let s1 = SearchIndex_reset_search_term term s;
          s2 = (if reset_index then SearchIndex_reset_cursor h backward s1 else s1)
      in if si_entities s2 \<noteq> [] \<and> \<not> si_end_of_index s2
         then SearchIndex_find_move tag_type h backward s2
         else Inr (s2, None, - 1))"

section \<open>Auxiliary definitions\<close>

text \<open>
  The layout rule in closed form: the \<open>(start line, record)\<close> pairs of a section that
  starts at line \<open>n\<close>, the line after its last record, and the same for a whole file,
  where every section is followed by two lines for its \<open>ENDSEC\<close> tag.
\<close>

fun section_lines :: "heap \<Rightarrow> int \<Rightarrow> ref list \<Rightarrow> (int \<times> ref) list" where
  "section_lines h n [] = []"
| "section_lines h n (e # es) = (n, e) # section_lines h (n + int (length (h e)) * 2) es"

fun section_end :: "heap \<Rightarrow> int \<Rightarrow> ref list \<Rightarrow> int" where
  "section_end h n [] = n"
| "section_end h n (e # es) = section_end h (n + int (length (h e)) * 2) es"

fun file_lines :: "heap \<Rightarrow> int \<Rightarrow> SectionDict \<Rightarrow> (int \<times> ref) list" where
  "file_lines h n [] = []"
| "file_lines h n (item # rest) =
     section_lines h n (snd item) @ file_lines h (section_end h n (snd item) + 2) rest"

fun file_end :: "heap \<Rightarrow> int \<Rightarrow> SectionDict \<Rightarrow> int" where
  "file_end h n [] = n"
| "file_end h n (item # rest) = file_end h (section_end h n (snd item) + 2) rest"

definition in_order :: "heap \<Rightarrow> int \<times> ref \<Rightarrow> int \<times> ref \<Rightarrow> bool" where
  "in_order h a b = (fst a + int (length (h (snd a))) * 2 \<le> fst b)"

definition index_of_lines :: "(ref \<rightharpoonup> int \<times> ref) \<Rightarrow> (int \<times> ref) list \<Rightarrow> (ref \<rightharpoonup> int \<times> ref)" where
  "index_of_lines m xs = fold (\<lambda>x m. m(snd x \<mapsto> x)) xs m"

text \<open>
  The handles that \<open>_build\<close> gives to a sequence of records when the counter of the
  synthetic handles stands at \<open>d\<close>, the counter afterwards, and the state of the build
  after a sequence of records in closed form.
\<close>

fun assigned_handles ::
  "(DXFTag list \<Rightarrow> string option) \<Rightarrow> heap \<Rightarrow> nat \<Rightarrow> ref list \<Rightarrow> string list" where
  "assigned_handles gh h d [] = []"
| "assigned_handles gh h d (r # rs) =
     (case gh (h r) of
        Some x \<Rightarrow> upper x # assigned_handles gh h d rs
      | None \<Rightarrow> upper (CHR ''*'' # format_X d) # assigned_handles gh h (Suc d) rs)"

definition next_dummy :: "(DXFTag list \<Rightarrow> string option) \<Rightarrow> heap \<Rightarrow> nat \<Rightarrow> ref list \<Rightarrow> nat" where
  "next_dummy gh h d rs = d + length (filter (\<lambda>r. gh (h r) = None) rs)"

definition dict_of :: "('k \<times> 'v) list \<Rightarrow> ('k \<times> 'v) list" where
  "dict_of xs = fold (\<lambda>x d. dict_set d (fst x) (snd x)) xs []"

definition entry_of :: "string list \<Rightarrow> (int \<times> ref) list \<Rightarrow> nat \<Rightarrow> IndexEntry" where
  "entry_of hs xs i =
     \<lparr>ie_tags = snd (xs ! i), ie_handle = Some (hs ! i), ie_start_line_number = fst (xs ! i),
      ie_prev = (if i = 0 then None else Some (i - 1)),
      ie_next = (if Suc i < length xs then Some (Suc i) else None)\<rparr>"

definition state_of :: "string list \<Rightarrow> (int \<times> ref) list \<Rightarrow> int \<Rightarrow> nat \<Rightarrow> build_state" where
  "state_of hs xs n d =
     \<lparr>bs_start_line_number = n, bs_dummy_handle = d,
      bs_entity_index = dict_of (zip hs [0..<length xs]),
      bs_prev_entity = (if xs = [] then None else Some (length xs - 1)),
      bs_entries = map (entry_of hs xs) [0..<length xs]\<rparr>"

text \<open>
  The records of a file in file order, the handles \<open>_build\<close> gives them, and the value
  of the counter \<open>dummy_handle\<close> used for the record at position \<open>i\<close> when it has no
  handle of its own: one more than the number of such records before it.
\<close>

definition file_records :: "SectionDict \<Rightarrow> ref list" where
  "file_records sections = concat (map snd sections)"

definition file_handles ::
  "(DXFTag list \<Rightarrow> string option) \<Rightarrow> heap \<Rightarrow> SectionDict \<Rightarrow> string list" where
  "file_handles gh h sections = assigned_handles gh h 1 (file_records sections)"

definition dummy_handle_at ::
  "(DXFTag list \<Rightarrow> string option) \<Rightarrow> heap \<Rightarrow> ref list \<Rightarrow> nat \<Rightarrow> nat" where
  "dummy_handle_at gh h rs i = Suc (length (filter (\<lambda>r. gh (h r) = None) (take i rs)))"

text \<open>
  Concrete records, parameters and indices for the examples. Record 11 is the head of a
  section and has no handle, 12 and 13 are entities with the handles \<open>1F\<close> and \<open>2A\<close>, 14
  repeats the handle \<open>1F\<close>, 15 holds one integer tag, 17 has a handle in lower case, 18
  shares its first tag object with record 11, and every other address holds a record
  without tags. \<open>example_get_handle\<close> takes the value of the first tag with group code 5
  or 105; two tags are equal when code and value are, and have no order.
\<close>

definition mk_tag :: "nat \<Rightarrow> int \<Rightarrow> dxfvalue \<Rightarrow> DXFTag" where
  "mk_tag i c v = \<lparr>tag_id = i, tag_code = c, tag_value = v\<rparr>"

definition example_heap :: heap where
  "example_heap r =
     (if r = 11 then [mk_tag 110 0 (StrVal ''SECTION''), mk_tag 111 2 (StrVal ''HEADER''),
                      mk_tag 112 9 (StrVal ''$ACADVER'')]
      else if r = 12 then [mk_tag 120 0 (StrVal ''LINE''), mk_tag 121 5 (StrVal ''1F'')]
      else if r = 13 then [mk_tag 130 0 (StrVal ''CIRCLE''), mk_tag 131 5 (StrVal ''2A''),
                           mk_tag 132 8 (StrVal ''0''), mk_tag 133 40 (FloatVal ''1.5'')]
      else if r = 14 then [mk_tag 140 0 (StrVal ''POINT''), mk_tag 141 5 (StrVal ''1F'')]
      else if r = 15 then [mk_tag 150 70 (IntVal 10)]
      else if r = 16 then [mk_tag 160 0 (StrVal ''TEXT''), mk_tag 161 1 (StrVal ''Room 10'')]
      else if r = 17 then [mk_tag 170 0 (StrVal ''ARC''), mk_tag 171 5 (StrVal ''ab'')]
      else if r = 18 then [mk_tag 110 0 (StrVal ''SECTION'')]
      else [])"

definition example_get_handle :: "DXFTag list \<Rightarrow> string option" where
  "example_get_handle ts =
     (case filter (\<lambda>t. tag_code t = 5 \<or> tag_code t = 105) ts of
        [] \<Rightarrow> None
      | t # _ \<Rightarrow> (case tag_value t of StrVal s \<Rightarrow> Some s | _ \<Rightarrow> None))"

definition example_tag_eq :: "DXFTag \<Rightarrow> DXFTag \<Rightarrow> bool" where
  "example_tag_eq a b = (tag_code a = tag_code b \<and> tag_value a = tag_value b)"

definition example_tag_lt :: "DXFTag \<Rightarrow> DXFTag \<Rightarrow> error + bool" where
  "example_tag_lt a b = Inl TypeError"

definition example_sections :: SectionDict where
  "example_sections = [(''HEADER'', [11]), (''ENTITIES'', [12, 13])]"

definition example_line_index :: LineIndex where
  "example_line_index =
     \<lparr>li_entity_index = [11 \<mapsto> (1, 11), 12 \<mapsto> (9, 12), 13 \<mapsto> (13, 13)],
      li_line_index = [(1, 11), (9, 12), (13, 13)],
      li_max_line_number = 20\<rparr>"

definition example_ties_index :: LineIndex where
  "example_ties_index =
     \<lparr>li_entity_index = [10 \<mapsto> (1, 10), 12 \<mapsto> (1, 12)],
      li_line_index = [(1, 10), (1, 12)],
      li_max_line_number = 4\<rparr>"

definition example_empty_index :: LineIndex where
  "example_empty_index =
     \<lparr>li_entity_index = Map.empty, li_line_index = [], li_max_line_number = 1\<rparr>"

definition example_tag_type :: "int \<Rightarrow> pytype" where
  "example_tag_type c =
     (if 60 \<le> c \<and> c \<le> 99 then PyInt else if 10 \<le> c \<and> c \<le> 59 then PyFloat else PyStr)"

definition example_search :: SearchIndex where
  "example_search =
     \<lparr>si_entities = [15, 16], si_current_entity_index = 0, si_current_tag_index = 0,
      si_search_term = None, si_search_term_lower = None, si_backward = False,
      si_end_of_index = False, si_case_insensitive = True, si_whole_words = False,
      si_numbers = False, si_regex = False\<rparr>"

section \<open>Properties of EntityHistory\<close>

lemma three_appends:
  assumes "A \<noteq> B" "B \<noteq> C"
  shows "EntityHistory_append C (EntityHistory_append B (EntityHistory_append A EntityHistory_init))
         = \<lparr>eh_history = [A, B, C], eh_index = 2, eh_time_travel = []\<rparr>"
  using assms by (simp add: EntityHistory_append_def EntityHistory_init_def Let_def)

lemma back_from_two:
  "EntityHistory_back \<lparr>eh_history = [A, B, C], eh_index = 2, eh_time_travel = []\<rparr>
   = Inr (Some B, \<lparr>eh_history = [A, B, C], eh_index = 1, eh_time_travel = [B]\<rparr>)"
  by (simp add: EntityHistory_back_def EntityHistory_time_wrap_def py_index_def Let_def)

lemma back_from_one:
  "EntityHistory_back \<lparr>eh_history = [A, B, C], eh_index = 1, eh_time_travel = [B]\<rparr>
   = Inr (Some A, \<lparr>eh_history = [A, B, C], eh_index = 0, eh_time_travel = [B, A]\<rparr>)"
  by (simp add: EntityHistory_back_def EntityHistory_time_wrap_def py_index_def Let_def)

lemma append_after_back:
  assumes "D \<noteq> A"
  shows "EntityHistory_append D \<lparr>eh_history = [A, B, C], eh_index = 0, eh_time_travel = [B, A]\<rparr>
         = \<lparr>eh_history = [A, B, C, B, A, D], eh_index = 5, eh_time_travel = []\<rparr>"
  using assms by (simp add: EntityHistory_append_def Let_def)

lemma forward_at_end:
  "EntityHistory_forward \<lparr>eh_history = [A, B, C, B, A, D], eh_index = 5, eh_time_travel = []\<rparr>
   = Inr (Some D, \<lparr>eh_history = [A, B, C, B, A, D], eh_index = 5, eh_time_travel = []\<rparr>)"
  by (simp add: EntityHistory_forward_def Let_def)

text \<open>
  C2 (as stated): after \<open>append(A)\<close>, \<open>append(B)\<close>, \<open>append(C)\<close> and two \<open>back()\<close> calls, a
  following \<open>append(D)\<close> leaves the history content equal to \<open>[A, B, C, A, D]\<close>. At
  \<open>A = 0, B = 1, C = 2, D = 3\<close> the two \<open>back()\<close> calls return \<open>B\<close> then \<open>A\<close>, and the
  content after \<open>append(D)\<close> is \<open>[0, 1, 2, 1, 0, 3]\<close>: both states visited by time travel
  are flushed into the history, so the claimed content is not the one produced.
\<close>

theorem C2_history_content_counterexample:
  "EntityHistory_append 2 (EntityHistory_append 1 (EntityHistory_append 0 EntityHistory_init))
     = \<lparr>eh_history = [0, 1, 2], eh_index = 2, eh_time_travel = []\<rparr>
   \<and> EntityHistory_back \<lparr>eh_history = [0, 1, 2], eh_index = 2, eh_time_travel = []\<rparr>
     = Inr (Some 1, \<lparr>eh_history = [0, 1, 2], eh_index = 1, eh_time_travel = [1]\<rparr>)
   \<and> EntityHistory_back \<lparr>eh_history = [0, 1, 2], eh_index = 1, eh_time_travel = [1]\<rparr>
     = Inr (Some 0, \<lparr>eh_history = [0, 1, 2], eh_index = 0, eh_time_travel = [1, 0]\<rparr>)
   \<and> EntityHistory_content
       (EntityHistory_append 3 \<lparr>eh_history = [0, 1, 2], eh_index = 0, eh_time_travel = [1, 0]\<rparr>)
     \<noteq> [0, 1, 2, 0, 3]"
  by (simp add: EntityHistory_append_def EntityHistory_init_def EntityHistory_back_def
      EntityHistory_time_wrap_def EntityHistory_content_def py_index_def Let_def)

text \<open>
  C2 (amended): for pairwise distinct \<open>A\<close>, \<open>B\<close>, \<open>C\<close>, after \<open>append(A)\<close>, \<open>append(B)\<close>,
  \<open>append(C)\<close> on a fresh history the next two \<open>back()\<close> calls return \<open>B\<close> then \<open>A\<close>; a
  following \<open>append(D)\<close> with \<open>D\<close> not the record \<open>A\<close> leaves the history content equal to
  \<open>[A, B, C, B, A, D]\<close>, and \<open>forward()\<close> then returns \<open>D\<close> and changes nothing, so it
  reaches neither \<open>B\<close> nor \<open>C\<close>.
\<close>

theorem C2_history_after_time_travel:
  assumes "A \<noteq> B" "B \<noteq> C" "A \<noteq> C" "D \<noteq> A"
  shows "\<exists>s3 s4 s5 s6.
           s3 = EntityHistory_append C
                  (EntityHistory_append B (EntityHistory_append A EntityHistory_init))
         \<and> EntityHistory_back s3 = Inr (Some B, s4)
         \<and> EntityHistory_back s4 = Inr (Some A, s5)
         \<and> s6 = EntityHistory_append D s5
         \<and> EntityHistory_content s6 = [A, B, C, B, A, D]
         \<and> EntityHistory_forward s6 = Inr (Some D, s6)"
  using assms
  by (simp add: three_appends back_from_two back_from_one append_after_back forward_at_end
      EntityHistory_content_def)

theorem C2_history_after_time_travel_witness:
  "\<exists>s3 s4 s5 s6.
     s3 = EntityHistory_append 2 (EntityHistory_append 1 (EntityHistory_append 0 EntityHistory_init))
   \<and> EntityHistory_back s3 = Inr (Some 1, s4)
   \<and> EntityHistory_back s4 = Inr (Some 0, s5)
   \<and> s6 = EntityHistory_append 3 s5
   \<and> EntityHistory_content s6 = [0, 1, 2, 1, 0, 3]
   \<and> EntityHistory_forward s6 = Inr (Some 3, s6)"
  using C2_history_after_time_travel [of 0 1 2 3] by simp

text \<open>
  C10: on a non-empty history, \<open>back()\<close> with the cursor at index 0 returns the first
  history record, and \<open>forward()\<close> with the cursor at the last index returns the last
  record; in both cases the history, the cursor and the time-travel buffer are unchanged.
\<close>

theorem C10_back_forward_clamped:
  assumes "eh_history s \<noteq> []"
  shows "(eh_index s = 0 \<longrightarrow>
            EntityHistory_back s = Inr (Some (eh_history s ! 0), s))
       \<and> (eh_index s = int (length (eh_history s)) - 1 \<longrightarrow>
            EntityHistory_forward s = Inr (Some (eh_history s ! (length (eh_history s) - 1)), s))"
  using assms
  by (simp add: EntityHistory_back_def EntityHistory_forward_def hd_conv_nth last_conv_nth)

theorem C10_back_forward_clamped_witness:
  "EntityHistory_back \<lparr>eh_history = [7, 8], eh_index = 0, eh_time_travel = [7]\<rparr>
     = Inr (Some 7, \<lparr>eh_history = [7, 8], eh_index = 0, eh_time_travel = [7]\<rparr>)
   \<and> EntityHistory_forward \<lparr>eh_history = [7, 8], eh_index = 1, eh_time_travel = [7]\<rparr>
     = Inr (Some 8, \<lparr>eh_history = [7, 8], eh_index = 1, eh_time_travel = [7]\<rparr>)"
  using C10_back_forward_clamped [of "\<lparr>eh_history = [7, 8], eh_index = 0, eh_time_travel = [7]\<rparr>"]
        C10_back_forward_clamped [of "\<lparr>eh_history = [7, 8], eh_index = 1, eh_time_travel = [7]\<rparr>"]
  by simp

section \<open>Properties of LineIndex\<close>

lemma fold_line_index_entity:
  "fold (line_index_entity h) es (idx, n) = (idx @ section_lines h n es, section_end h n es)"
  by (induction es arbitrary: idx n) (simp_all add: line_index_entity_def)

lemma fold_line_index_section:
  "fold (line_index_section h) secs (idx, n) = (idx @ file_lines h n secs, file_end h n secs)"
  by (induction secs arbitrary: idx n)
     (simp_all add: line_index_section_def fold_line_index_entity)

lemma section_end_ge: "n \<le> section_end h n es"
proof (induction es arbitrary: n)
  case Nil
  then show ?case by simp
next
  case (Cons e es)
  have "n \<le> n + int (length (h e)) * 2" by simp
  also have "\<dots> \<le> section_end h (n + int (length (h e)) * 2) es" by (rule Cons.IH)
  finally show ?case by simp
qed

lemma section_lines_bounds:
  "x \<in> set (section_lines h n es) \<Longrightarrow>
     n \<le> fst x \<and> fst x + int (length (h (snd x))) * 2 \<le> section_end h n es"
proof (induction es arbitrary: n)
  case Nil
  then show ?case by simp
next
  case (Cons e es)
  show ?case
  proof (cases "x = (n, e)")
    case True
    then show ?thesis using section_end_ge [of "n + int (length (h e)) * 2" h es] by simp
  next
    case False
    with Cons.prems have "x \<in> set (section_lines h (n + int (length (h e)) * 2) es)" by simp
    from Cons.IH [OF this] show ?thesis by simp
  qed
qed

lemma section_lines_in_order: "successively (in_order h) (section_lines h n es)"
proof (induction es arbitrary: n)
  case Nil
  then show ?case by simp
next
  case (Cons e es)
  show ?case
  proof (cases es)
    case Nil
    then show ?thesis by simp
  next
    case (Cons e' es')
    then show ?thesis using Cons.IH [of "n + int (length (h e)) * 2"]
      by (simp add: in_order_def)
  qed
qed

lemma file_end_ge: "n \<le> file_end h n secs"
proof (induction secs arbitrary: n)
  case Nil
  then show ?case by simp
next
  case (Cons item rest)
  have "n \<le> section_end h n (snd item) + 2" using section_end_ge [of n h "snd item"] by simp
  also have "\<dots> \<le> file_end h (section_end h n (snd item) + 2) rest" by (rule Cons.IH)
  finally show ?case by simp
qed

lemma file_lines_bounds:
  "x \<in> set (file_lines h n secs) \<Longrightarrow>
     n \<le> fst x \<and> fst x + int (length (h (snd x))) * 2 + 2 \<le> file_end h n secs"
proof (induction secs arbitrary: n)
  case Nil
  then show ?case by simp
next
  case (Cons item rest)
  from Cons.prems consider
      (a) "x \<in> set (section_lines h n (snd item))"
    | (b) "x \<in> set (file_lines h (section_end h n (snd item) + 2) rest)" by auto
  then show ?case
  proof cases
    case a
    from section_lines_bounds [OF a] file_end_ge [of "section_end h n (snd item) + 2" h rest]
    show ?thesis by simp
  next
    case b
    from Cons.IH [OF b] section_end_ge [of n h "snd item"] show ?thesis by simp
  qed
qed

lemma file_lines_in_order: "successively (in_order h) (file_lines h n secs)"
proof (induction secs arbitrary: n)
  case Nil
  then show ?case by simp
next
  case (Cons item rest)
  let ?xs = "section_lines h n (snd item)"
  let ?ys = "file_lines h (section_end h n (snd item) + 2) rest"
  have "in_order h (last ?xs) (hd ?ys)" if "?xs \<noteq> []" "?ys \<noteq> []"
  proof -
    from that have "last ?xs \<in> set ?xs" "hd ?ys \<in> set ?ys" by simp_all
    from section_lines_bounds [OF this(1)] file_lines_bounds [OF this(2)]
    show ?thesis by (simp add: in_order_def)
  qed
  then show ?case
    using section_lines_in_order [of h n "snd item"] Cons.IH [of "section_end h n (snd item) + 2"]
    by (auto simp: successively_append_iff)
qed

lemma tags_lt_Nil: "tags_lt tag_eq tag_lt ts [] = Inr False"
  by (cases ts) simp_all

lemma tuple_lt_in_order: "in_order h a b \<Longrightarrow> tuple_lt tag_eq tag_lt h b a = Inr False"
  by (auto simp: in_order_def tuple_lt_def tags_lt_Nil)

lemma sort_in_order:
  "successively (\<lambda>a b. lt b a = Inr False) xs \<Longrightarrow> list_sort lt xs = Inr xs"
proof (induction xs)
  case Nil
  then show ?case by simp
next
  case (Cons x xs)
  then show ?case by (cases xs) simp_all
qed

lemma build_line_index_eq:
  "LineIndex_build_line_index tag_eq tag_lt h sections = Inr (file_lines h 1 sections)"
proof -
  have "successively (\<lambda>a b. tuple_lt tag_eq tag_lt h b a = Inr False) (file_lines h 1 sections)"
    by (rule successively_mono [OF file_lines_in_order]) (simp add: tuple_lt_in_order)
  then show ?thesis
    by (simp add: LineIndex_build_line_index_def fold_line_index_section sort_in_order)
qed

lemma index_of_lines_simps:
  "index_of_lines m [] = m"
  "index_of_lines m (x # xs) = index_of_lines (m(snd x \<mapsto> x)) xs"
  "index_of_lines m (xs @ ys) = index_of_lines (index_of_lines m xs) ys"
  by (simp_all add: index_of_lines_def)

lemma fold_entity_index_entity:
  "fold (entity_index_entity h) es (m, n)
   = (index_of_lines m (section_lines h n es), section_end h n es)"
  by (induction es arbitrary: m n) (simp_all add: entity_index_entity_def index_of_lines_simps)

lemma fold_entity_index_section:
  "fold (entity_index_section h) secs (m, n)
   = (index_of_lines m (file_lines h n secs), file_end h n secs)"
  by (induction secs arbitrary: m n)
     (simp_all add: entity_index_section_def fold_entity_index_entity index_of_lines_simps)

lemma build_entity_index_eq:
  "LineIndex_build_entity_index h sections = index_of_lines Map.empty (file_lines h 1 sections)"
  by (simp add: LineIndex_build_entity_index_def fold_entity_index_section)

lemma index_of_lines_other: "r \<notin> snd ` set xs \<Longrightarrow> index_of_lines m xs r = m r"
  by (induction xs arbitrary: m) (auto simp: index_of_lines_simps)

lemma index_of_lines_member:
  "r \<in> snd ` set xs \<Longrightarrow> \<exists>n. index_of_lines m xs r = Some (n, r) \<and> (n, r) \<in> set xs"
proof (induction xs arbitrary: m)
  case Nil
  then show ?case by simp
next
  case (Cons x xs)
  show ?case
  proof (cases "r \<in> snd ` set xs")
    case True
    from Cons.IH [OF True, of "m(snd x \<mapsto> x)"]
    obtain n where "index_of_lines (m(snd x \<mapsto> x)) xs r = Some (n, r)" "(n, r) \<in> set xs"
      by blast
    then have "index_of_lines m (x # xs) r = Some (n, r) \<and> (n, r) \<in> set (x # xs)"
      by (simp add: index_of_lines_simps)
    then show ?thesis by blast
  next
    case False
    with Cons.prems have "snd x = r" by auto
    with False show ?thesis
      by (cases x) (simp add: index_of_lines_simps index_of_lines_other)
  qed
qed

lemma map_snd_section_lines: "map snd (section_lines h n es) = es"
  by (induction es arbitrary: n) simp_all

lemma map_snd_file_lines: "map snd (file_lines h n secs) = concat (map snd secs)"
  by (induction secs arbitrary: n) (simp_all add: map_snd_section_lines)

lemma line_scan_beyond: "\<forall>x\<in>set xs. number < fst x \<Longrightarrow> line_scan number e xs = e"
  by (cases xs) auto

lemma line_scan_found:
  "sorted_wrt (<) (map fst xs) \<Longrightarrow> (n, r) \<in> set xs \<Longrightarrow> line_scan n e0 xs = r"
proof (induction xs arbitrary: e0)
  case Nil
  then show ?case by simp
next
  case (Cons x xs)
  obtain s e where x: "x = (s, e)" by (cases x)
  show ?case
  proof (cases "(n, r) = x")
    case True
    with Cons.prems(1) x have "\<forall>y\<in>set xs. n < fst y" by auto
    with True x show ?thesis by (simp add: line_scan_beyond)
  next
    case False
    with Cons.prems have mem: "(n, r) \<in> set xs" by simp
    with Cons.prems(1) x have "s < n" by force
    with x Cons.IH [OF _ mem] Cons.prems(1) show ?thesis by simp
  qed
qed

lemma file_lines_strict:
  assumes "\<forall>r\<in>set (concat (map snd secs)). h r \<noteq> []"
  shows "sorted_wrt (<) (map fst (file_lines h n secs))"
proof -
  have mem: "snd x \<in> set (concat (map snd secs))" if "x \<in> set (file_lines h n secs)" for x
    using that map_snd_file_lines [of h n secs] by (metis imageI set_map)
  have "successively (\<lambda>a b. fst a < fst b) (file_lines h n secs)"
  proof (rule successively_mono [OF file_lines_in_order])
    fix a b assume "a \<in> set (file_lines h n secs)" "in_order h a b"
    with mem [of a] assms have "h (snd a) \<noteq> []" "in_order h a b" by blast+
    then show "fst a < fst b" by (cases "h (snd a)") (simp_all add: in_order_def)
  qed
  then have "successively (<) (map fst (file_lines h n secs))"
    by (simp add: successively_map)
  then show ?thesis by (simp add: successively_conv_sorted_wrt)
qed

text \<open>
  C4 (amended): for every section mapping in which each record has at least one tag,
  the LineIndex is built, the start lines of its sorted line index are strictly
  increasing, and \<open>get_entity_at_line(get_start_line_for_entity(r))\<close> returns \<open>r\<close> for every
  record \<open>r\<close> of the mapping.
\<close>

theorem C4_line_index_round_trip:
  assumes "\<forall>r\<in>set (concat (map snd sections)). h r \<noteq> []"
  shows "\<exists>li. LineIndex_init tag_eq tag_lt h sections = Inr li
             \<and> sorted_wrt (<) (map fst (li_line_index li))
             \<and> (\<forall>r\<in>set (concat (map snd sections)).
                  LineIndex_get_entity_at_line li (LineIndex_get_start_line_for_entity li r)
                  = Some r)"
proof -
  let ?xs = "file_lines h 1 sections"
  let ?li = "\<lparr>li_entity_index = index_of_lines Map.empty ?xs, li_line_index = ?xs,
              li_max_line_number =
                (if ?xs \<noteq> [] then fst (last ?xs) + int (length (h (snd (last ?xs)))) * 2 - 1
                 else 1)\<rparr>"
  have init: "LineIndex_init tag_eq tag_lt h sections = Inr ?li"
    by (simp add: LineIndex_init_def build_line_index_eq build_entity_index_eq)
  have strict: "sorted_wrt (<) (map fst ?xs)" by (rule file_lines_strict [OF assms])
  have rt: "LineIndex_get_entity_at_line ?li (LineIndex_get_start_line_for_entity ?li r) = Some r"
    if "r \<in> set (concat (map snd sections))" for r
  proof -
    from that have "r \<in> snd ` set ?xs" using map_snd_file_lines [of h 1 sections]
      by (metis set_map)
    from index_of_lines_member [OF this, of Map.empty]
    obtain n where n: "index_of_lines Map.empty ?xs r = Some (n, r)" "(n, r) \<in> set ?xs" by blast
    then have "?xs \<noteq> []" by auto
    then obtain first rest where fr: "?xs = first # rest" by (cases ?xs) auto
    have "line_scan n (snd first) ?xs = r" by (rule line_scan_found [OF strict n(2)])
    with n(1) fr show ?thesis
      by (simp add: LineIndex_get_entity_at_line_def LineIndex_get_start_line_for_entity_def)
  qed
  show ?thesis
  proof (intro exI conjI ballI)
    show "LineIndex_init tag_eq tag_lt h sections = Inr ?li" by (rule init)
    show "sorted_wrt (<) (map fst (li_line_index ?li))" using strict by simp
    fix r assume "r \<in> set (concat (map snd sections))"
    then show "LineIndex_get_entity_at_line ?li (LineIndex_get_start_line_for_entity ?li r) = Some r"
      by (rule rt)
  qed
qed

section \<open>Properties of SearchIndex\<close>

lemma move_cursor_numbers:
  "SearchIndex_move_cursor_forward h s = Inr s' \<Longrightarrow> si_numbers s' = si_numbers s"
  "SearchIndex_move_cursor_backward h s = Inr s' \<Longrightarrow> si_numbers s' = si_numbers s"
  by (auto simp: SearchIndex_move_cursor_forward_def SearchIndex_move_cursor_backward_def Let_def
      split: if_splits option.splits)

lemma find_step_Continue_numbers:
  "SearchIndex_find_step tag_type h backward s = Continue s' \<Longrightarrow> si_numbers s' = si_numbers s"
  by (auto simp: SearchIndex_find_step_def dest: move_cursor_numbers
      split: sum.splits option.splits if_splits)

lemma find_step_Found_numbers:
  assumes "SearchIndex_find_step tag_type h backward s = Found (s', Some entity, tag_index)"
    and "\<not> si_numbers s"
  shows "\<exists>tag. py_index (h entity) tag_index = Some tag \<and> tag_type (tag_code tag) = PyStr"
proof -
  from assms(1) obtain s1 tag where
      mv: "(if backward then SearchIndex_move_cursor_backward h s
            else SearchIndex_move_cursor_forward h s) = Inr s1"
    and tag: "py_index (h entity) tag_index = Some tag"
    and m: "SearchIndex_match tag_type s1 (tag_code tag) (tag_value tag) = Inr True"
    by (auto simp: SearchIndex_find_step_def split: sum.splits option.splits if_splits)
  from mv have "si_numbers s1 = si_numbers s"
    by (auto dest: move_cursor_numbers split: if_splits)
  with assms(2) m have "tag_type (tag_code tag) = PyStr"
    by (auto simp: SearchIndex_match_def split: if_splits)
  with tag show ?thesis by blast
qed

lemma find_loop_numbers:
  "\<not> si_numbers s \<Longrightarrow>
   SearchIndex_find_loop tag_type h backward s = Inr (s', Some entity, tag_index) \<Longrightarrow>
   \<exists>tag. py_index (h entity) tag_index = Some tag \<and> tag_type (tag_code tag) = PyStr"
proof (induction tag_type h backward s rule: SearchIndex_find_loop.induct)
  case (1 tag_type h backward s)
  from "1.prems"(2) have ne: "\<not> si_end_of_index s"
    by (subst (asm) SearchIndex_find_loop.simps) (auto split: if_splits)
  show ?case
  proof (cases "SearchIndex_find_step tag_type h backward s")
    case (Found r)
    with "1.prems"(2) ne have "r = (s', Some entity, tag_index)"
      by (subst (asm) SearchIndex_find_loop.simps) simp
    with Found "1.prems"(1) show ?thesis by (auto dest: find_step_Found_numbers)
  next
    case (Continue s1)
    with "1.prems"(2) ne
    have "SearchIndex_find_loop tag_type h backward s1 = Inr (s', Some entity, tag_index)"
      by (subst (asm) SearchIndex_find_loop.simps) simp
    moreover from Continue "1.prems"(1) have "\<not> si_numbers s1"
      by (simp add: find_step_Continue_numbers)
    ultimately show ?thesis using "1.IH" [OF ne Continue] by blast
  next
    case (Raised e)
    with "1.prems"(2) ne show ?thesis
      by (subst (asm) SearchIndex_find_loop.simps) simp
  qed
qed

lemma find_numbers_disabled:
  assumes "\<not> si_numbers s"
    and "SearchIndex_find tag_type h term backward reset_index s = Inr (s', Some entity, tag_index)"
  shows "\<exists>tag. py_index (h entity) tag_index = Some tag \<and> tag_type (tag_code tag) = PyStr"
proof -
  define s2 where "s2 = (if reset_index
      then SearchIndex_reset_cursor h backward (SearchIndex_reset_search_term term s)
      else SearchIndex_reset_search_term term s)"
  have n2: "\<not> si_numbers s2" using assms(1)
    by (simp add: s2_def SearchIndex_reset_cursor_def SearchIndex_reset_search_term_def Let_def)
  from assms(2) have "SearchIndex_find_loop tag_type h backward s2 = Inr (s', Some entity, tag_index)"
    by (auto simp: SearchIndex_find_def SearchIndex_find_move_def Let_def s2_def split: if_splits)
  with n2 show ?thesis by (rule find_loop_numbers)
qed

lemma match_int_10:
  assumes "si_numbers s" "tag_type code \<noteq> PyStr"
    and "si_search_term s = Some ''10''" "si_search_term_lower s = Some ''10''"
  shows "SearchIndex_match tag_type s code (IntVal 10) = Inr True"
proof -
  have "str_int 10 = ''10''" by (simp add: str_int_def str_nat.simps dec_digit_def)
  moreover have "lower ''10'' = ''10''" by (simp add: lower_def lower_char_def)
  moreover have "py_split ''10'' = [''10'']" by (simp add: py_split_def is_space_def)
  ultimately show ?thesis using assms by (simp add: SearchIndex_match_def Let_def)
qed

lemma find_int_10:
  assumes "si_numbers s" "si_entities s = e # es" "h e = tag # ts"
    and "tag_value tag = IntVal 10" "tag_type (tag_code tag) \<noteq> PyStr"
  shows "\<exists>s'. SearchIndex_find tag_type h ''10'' False True s = Inr (s', Some e, 0)"
proof -
  define s2 where "s2 = SearchIndex_reset_cursor h False (SearchIndex_reset_search_term ''10'' s)"
  have s2: "si_entities s2 = e # es" "\<not> si_end_of_index s2" "si_current_entity_index s2 = 0"
      "si_current_tag_index s2 = 0" "si_search_term s2 = Some ''10''"
      "si_search_term_lower s2 = Some ''10''" "si_numbers s2"
    using assms(1,2)
    by (simp_all add: s2_def SearchIndex_reset_cursor_def SearchIndex_reset_search_term_def
        Let_def lower_def lower_char_def)
  have "\<exists>s3. SearchIndex_move_cursor_forward h s2 = Inr s3"
    using s2 by (simp add: SearchIndex_move_cursor_forward_def py_index_def Let_def)
  then obtain s3 where mv: "SearchIndex_move_cursor_forward h s2 = Inr s3" by blast
  have s3: "si_search_term s3 = Some ''10''" "si_search_term_lower s3 = Some ''10''" "si_numbers s3"
    using s2 mv by (auto simp: SearchIndex_move_cursor_forward_def py_index_def Let_def split: if_splits)
  have m: "SearchIndex_match tag_type s3 (tag_code tag) (IntVal 10) = Inr True"
    using s3 assms(5) by (intro match_int_10) simp_all
  have "SearchIndex_find_step tag_type h False s2 = Found (s3, Some e, 0)"
    using s2 mv m assms(3,4)
    by (simp add: SearchIndex_find_step_def SearchIndex_current_entity_def py_index_def)
  then have "SearchIndex_find_loop tag_type h False s2 = Inr (s3, Some e, 0)"
    using s2 by (subst SearchIndex_find_loop.simps) simp
  then have "SearchIndex_find tag_type h ''10'' False True s = Inr (s3, Some e, 0)"
    using s2 by (simp add: SearchIndex_find_def SearchIndex_find_move_def s2_def Let_def)
  then show ?thesis by blast
qed

lemma example_find:
  "SearchIndex_find example_tag_type example_heap ''10'' False True example_search
   = Inr (example_search\<lparr>si_current_entity_index := 1, si_current_tag_index := 1,
                          si_search_term := Some ''10'', si_search_term_lower := Some ''10'',
                          si_end_of_index := True\<rparr>, Some 16, 1)"
  by (simp add: SearchIndex_find_def SearchIndex_find_move_def SearchIndex_find_loop.simps
      SearchIndex_find_step_def SearchIndex_current_entity_def SearchIndex_move_cursor_forward_def
      SearchIndex_reset_cursor_def SearchIndex_reset_search_term_def SearchIndex_match_def
      example_search_def example_heap_def example_tag_type_def mk_tag_def py_index_def
      lower_def lower_char_def Let_def)

section \<open>Properties of HandleIndex\<close>

lemma dict_of_snoc: "dict_of (xs @ [x]) = dict_set (dict_of xs) (fst x) (snd x)"
  by (simp add: dict_of_def)

lemma entries_snoc:
  assumes "length hs = length xs"
  shows "(case (if xs = [] then None else Some (length xs - 1)) of
            None \<Rightarrow> map (entry_of hs xs) [0..<length xs]
          | Some p \<Rightarrow> (map (entry_of hs xs) [0..<length xs])
                        [p := (map (entry_of hs xs) [0..<length xs] ! p)
                                \<lparr>ie_next := Some (length (map (entry_of hs xs) [0..<length xs]))\<rparr>])
         @ [\<lparr>ie_tags = r, ie_handle = Some k, ie_start_line_number = n,
              ie_prev = (if xs = [] then None else Some (length xs - 1)), ie_next = None\<rparr>]
         = map (entry_of (hs @ [k]) (xs @ [(n, r)])) [0..<length (xs @ [(n, r)])]"
    (is "?L = ?R")
proof (cases "xs = []")
  case True
  with assms show ?thesis by (simp add: entry_of_def)
next
  case False
  show ?thesis
  proof (rule nth_equalityI)
    show "length ?L = length ?R" using False by simp
  next
    fix i
    assume "i < length ?L"
    then have i: "i < Suc (length xs)" using False by simp
    consider (a) "Suc i < length xs" | (b) "length xs = Suc i" | (c) "i = length xs"
      using i by linarith
    then show "?L ! i = ?R ! i"
    proof cases
      case a
      with False assms show ?thesis
        by (simp add: nth_append entry_of_def del: upt_Suc)
    next
      case b
      with assms have "length hs = Suc i" by simp
      with b False show ?thesis
        by (simp add: nth_append entry_of_def del: upt_Suc)
    next
      case c
      with False assms show ?thesis
        by (simp add: nth_append entry_of_def del: upt_Suc)
    qed
  qed
qed

lemma build_entity_state_of:
  assumes "length hs = length xs"
  shows "build_entity gh h r (state_of hs xs n d)
         = state_of (hs @ assigned_handles gh h d [r]) (xs @ [(n, r)])
             (n + int (length (h r)) * 2) (next_dummy gh h d [r])"
proof -
  have z: "zip (hs @ [k]) ([0..<length xs] @ [length xs]) = zip hs [0..<length xs] @ [(k, length xs)]"
    for k using assms by simp
  show ?thesis
    using entries_snoc [OF assms, of r _ n]
    by (cases "gh (h r)")
       (simp_all add: build_entity_def state_of_def Let_def next_dummy_def z dict_of_snoc
          del: upt_Suc add: upt_Suc_append)
qed

lemma next_dummy_simps:
  "next_dummy gh h d [] = d"
  "next_dummy gh h d (r # rs) = next_dummy gh h (next_dummy gh h d [r]) rs"
  "next_dummy gh h d (as @ bs) = next_dummy gh h (next_dummy gh h d as) bs"
  by (simp_all add: next_dummy_def)

lemma next_dummy_single:
  "next_dummy gh h d [r] = (case gh (h r) of Some x \<Rightarrow> d | None \<Rightarrow> Suc d)"
  by (simp add: next_dummy_def split: option.splits)

lemma assigned_handles_Cons:
  "assigned_handles gh h d (r # rs)
   = assigned_handles gh h d [r] @ assigned_handles gh h (next_dummy gh h d [r]) rs"
  by (simp add: next_dummy_single split: option.splits)

lemma assigned_handles_append:
  "assigned_handles gh h d (as @ bs)
   = assigned_handles gh h d as @ assigned_handles gh h (next_dummy gh h d as) bs"
proof (induction as arbitrary: d)
  case Nil
  then show ?case by (simp add: next_dummy_simps)
next
  case (Cons a as)
  show ?case
    by (cases "gh (h a)") (simp_all add: Cons.IH next_dummy_def)
qed

lemma length_assigned_handles [simp]: "length (assigned_handles gh h d rs) = length rs"
  by (induction rs arbitrary: d) (simp_all split: option.splits)

lemma length_section_lines [simp]: "length (section_lines h n es) = length es"
  by (induction es arbitrary: n) simp_all

lemma length_file_lines [simp]: "length (file_lines h n secs) = length (file_records secs)"
  by (induction secs arbitrary: n) (simp_all add: file_records_def)

lemma fold_build_entity:
  "length hs = length xs \<Longrightarrow>
   fold (build_entity gh h) es (state_of hs xs n d)
   = state_of (hs @ assigned_handles gh h d es) (xs @ section_lines h n es)
       (section_end h n es) (next_dummy gh h d es)"
proof (induction es arbitrary: hs xs n d)
  case Nil
  then show ?case by (simp add: next_dummy_simps)
next
  case (Cons e es)
  have len: "length (hs @ assigned_handles gh h d [e]) = length (xs @ [(n, e)])"
    using Cons.prems by (simp split: option.splits)
  have "fold (build_entity gh h) (e # es) (state_of hs xs n d)
        = fold (build_entity gh h) es (build_entity gh h e (state_of hs xs n d))" by simp
  also have "\<dots> = fold (build_entity gh h) es
                     (state_of (hs @ assigned_handles gh h d [e]) (xs @ [(n, e)])
                        (n + int (length (h e)) * 2) (next_dummy gh h d [e]))"
    by (simp only: build_entity_state_of [OF Cons.prems])
  also have "\<dots> = state_of ((hs @ assigned_handles gh h d [e])
                              @ assigned_handles gh h (next_dummy gh h d [e]) es)
                     ((xs @ [(n, e)]) @ section_lines h (n + int (length (h e)) * 2) es)
                     (section_end h (n + int (length (h e)) * 2) es)
                     (next_dummy gh h (next_dummy gh h d [e]) es)"
    by (rule Cons.IH [OF len])
  also have "\<dots> = state_of (hs @ assigned_handles gh h d (e # es)) (xs @ section_lines h n (e # es))
                     (section_end h n (e # es)) (next_dummy gh h d (e # es))"
    using assigned_handles_Cons [of gh h d e es] next_dummy_simps(2) [of gh h d e es]
    by simp
  finally show ?case .
qed

lemma state_of_line_update:
  "(state_of hs xs n d)\<lparr>bs_start_line_number := m\<rparr> = state_of hs xs m d"
  "bs_start_line_number (state_of hs xs n d) = n"
  by (simp_all add: state_of_def)

lemma fold_build_section:
  "length hs = length xs \<Longrightarrow>
   fold (build_section gh h) secs (state_of hs xs n d)
   = state_of (hs @ assigned_handles gh h d (concat (map snd secs))) (xs @ file_lines h n secs)
       (file_end h n secs) (next_dummy gh h d (concat (map snd secs)))"
proof (induction secs arbitrary: hs xs n d)
  case Nil
  then show ?case by (simp add: next_dummy_simps)
next
  case (Cons item rest)
  let ?hs = "hs @ assigned_handles gh h d (snd item)"
  let ?xs = "xs @ section_lines h n (snd item)"
  have len: "length ?hs = length ?xs" using Cons.prems by simp
  have "build_section gh h item (state_of hs xs n d)
        = state_of ?hs ?xs (section_end h n (snd item) + 2) (next_dummy gh h d (snd item))"
    by (simp add: build_section_def Let_def fold_build_entity [OF Cons.prems] state_of_line_update)
  then have "fold (build_section gh h) (item # rest) (state_of hs xs n d)
        = fold (build_section gh h) rest
            (state_of ?hs ?xs (section_end h n (snd item) + 2) (next_dummy gh h d (snd item)))"
    by simp
  also have "\<dots> = state_of (?hs @ assigned_handles gh h (next_dummy gh h d (snd item))
                                   (concat (map snd rest)))
                     (?xs @ file_lines h (section_end h n (snd item) + 2) rest)
                     (file_end h (section_end h n (snd item) + 2) rest)
                     (next_dummy gh h (next_dummy gh h d (snd item)) (concat (map snd rest)))"
    by (rule Cons.IH [OF len])
  also have "\<dots> = state_of (hs @ assigned_handles gh h d (concat (map snd (item # rest))))
                     (xs @ file_lines h n (item # rest)) (file_end h n (item # rest))
                     (next_dummy gh h d (concat (map snd (item # rest))))"
    by (simp add: assigned_handles_append next_dummy_simps)
  finally show ?case .
qed

lemma build_init_state_of: "build_init = state_of [] [] 1 1"
  by (simp add: build_init_def state_of_def dict_of_def)

lemma HandleIndex_init_closed:
  "HandleIndex_init gh h sections
   = \<lparr>hi_index = dict_of (zip (file_handles gh h sections) [0..<length (file_records sections)]),
      hi_max_line_number = file_end h 1 sections - 3,
      hi_entries = map (entry_of (file_handles gh h sections) (file_lines h 1 sections))
                     [0..<length (file_records sections)]\<rparr>"
proof -
  have "fold (build_section gh h) sections build_init
        = state_of (file_handles gh h sections) (file_lines h 1 sections) (file_end h 1 sections)
            (next_dummy gh h 1 (file_records sections))"
    using fold_build_section [of "[]" "[]" gh h sections 1 1]
    by (simp add: build_init_state_of file_handles_def file_records_def)
  then show ?thesis
    by (simp add: HandleIndex_init_def Let_def state_of_def)
qed

lemma dict_set_keys: "fst ` set (dict_set d k v) = insert k (fst ` set d)"
  by (induction d) auto

lemma dict_set_values: "snd ` set (dict_set d k v) \<subseteq> insert v (snd ` set d)"
  by (induction d) auto


lemma dict_of_keys: "fst ` set (dict_of xs) = fst ` set xs"
  by (induction xs rule: rev_induct) (auto simp: dict_of_snoc dict_set_keys dict_of_def)

lemma dict_of_values: "snd ` set (dict_of xs) \<subseteq> snd ` set xs"
proof (induction xs rule: rev_induct)
  case Nil
  then show ?case by (simp add: dict_of_def)
next
  case (snoc x xs)
  have "snd ` set (dict_of (xs @ [x])) \<subseteq> insert (snd x) (snd ` set (dict_of xs))"
    by (simp add: dict_of_snoc dict_set_values)
  also have "\<dots> \<subseteq> insert (snd x) (snd ` set xs)" using snoc by blast
  also have "\<dots> = snd ` set (xs @ [x])" by simp
  finally show ?case .
qed


lemma hex_digit_upper: "d < 16 \<Longrightarrow> upper_char (hex_digit d) = hex_digit d"
proof -
  assume "d < 16"
  then have "hex_digit d \<in> set ''0123456789ABCDEF''"
    unfolding hex_digit_def by (intro nth_mem) simp
  moreover have "\<forall>c\<in>set ''0123456789ABCDEF''. upper_char c = c"
    by (simp add: upper_char_def)
  ultimately show ?thesis by blast
qed

lemma format_X_upper: "map upper_char (format_X n) = format_X n"
proof (induction n rule: format_X.induct)
  case (1 n)
  show ?case
  proof (cases "n < 16")
    case True
    then show ?thesis by (subst (1 2) format_X.simps) (simp add: hex_digit_upper)
  next
    case False
    with "1.IH" show ?thesis
      by (subst (1 2) format_X.simps) (simp add: hex_digit_upper)
  qed
qed

lemma synthetic_upper: "upper (CHR ''*'' # format_X n) = CHR ''*'' # format_X n"
  by (simp add: upper_def format_X_upper) (simp add: upper_char_def)

lemma hex_digit_inj: "a < 16 \<Longrightarrow> b < 16 \<Longrightarrow> hex_digit a = hex_digit b \<Longrightarrow> a = b"
proof -
  assume "a < 16" "b < 16" "hex_digit a = hex_digit b"
  moreover have "distinct ''0123456789ABCDEF''" by simp
  ultimately show ?thesis
    by (simp add: hex_digit_def nth_eq_iff_index_eq del: distinct.simps)
qed

lemma format_X_nonempty: "format_X n \<noteq> []"
  by (subst format_X.simps) simp

lemma format_X_inj: "format_X m = format_X n \<Longrightarrow> m = n"
proof (induction m arbitrary: n rule: format_X.induct)
  case (1 m)
  show ?case
  proof (cases "m < 16")
    case True
    show ?thesis
    proof (cases "n < 16")
      case n: True
      from "1.prems" True n have "hex_digit m = hex_digit n"
        by (subst (asm) (1 2) format_X.simps) simp
      with True n show ?thesis by (rule hex_digit_inj)
    next
      case n: False
      from "1.prems" True n have "[hex_digit m] = format_X (n div 16) @ [hex_digit (n mod 16)]"
        by (subst (asm) (1 2) format_X.simps) simp
      with format_X_nonempty [of "n div 16"] show ?thesis by simp
    qed
  next
    case False
    show ?thesis
    proof (cases "n < 16")
      case n: True
      from "1.prems" False n have "format_X (m div 16) @ [hex_digit (m mod 16)] = [hex_digit n]"
        by (subst (asm) (1 2) format_X.simps) simp
      with format_X_nonempty [of "m div 16"] show ?thesis by simp
    next
      case n: False
      from "1.prems" False n
      have "format_X (m div 16) @ [hex_digit (m mod 16)]
            = format_X (n div 16) @ [hex_digit (n mod 16)]"
        by (subst (asm) (1 2) format_X.simps) simp
      then have e: "format_X (m div 16) = format_X (n div 16)"
          "hex_digit (m mod 16) = hex_digit (n mod 16)" by simp_all
      from "1.IH" [OF False e(1)] have "m div 16 = n div 16" .
      moreover from e(2) have "m mod 16 = n mod 16" by (intro hex_digit_inj) simp_all
      ultimately show ?thesis by (metis div_mult_mod_eq)
    qed
  qed
qed

lemma assigned_handles_nth:
  "i < length rs \<Longrightarrow>
   assigned_handles gh h d rs ! i
   = (case gh (h (rs ! i)) of
        Some x \<Rightarrow> upper x
      | None \<Rightarrow> CHR ''*'' # format_X (d + length (filter (\<lambda>r. gh (h r) = None) (take i rs))))"
proof (induction rs arbitrary: d i)
  case Nil
  then show ?case by simp
next
  case (Cons r rs)
  show ?case
  proof (cases i)
    case 0
    then show ?thesis by (simp add: synthetic_upper split: option.splits)
  next
    case (Suc j)
    with Cons.prems have j: "j < length rs" by simp
    show ?thesis
    proof (cases "gh (h r)")
      case None
      with Suc Cons.IH [OF j, of "Suc d"] show ?thesis by (simp cong: option.case_cong)
    next
      case (Some x)
      with Suc Cons.IH [OF j, of d] show ?thesis by (simp cong: option.case_cong)
    qed
  qed
qed

lemma length_file_handles [simp]:
  "length (file_handles gh h sections) = length (file_records sections)"
  by (simp add: file_handles_def)

lemma map_snd_file_lines_records: "map snd (file_lines h n sections) = file_records sections"
  by (simp add: file_records_def map_snd_file_lines)

lemma init_entry:
  assumes "i < length (file_records sections)"
  shows "hi_entries (HandleIndex_init gh h sections) ! i
         = \<lparr>ie_tags = file_records sections ! i,
            ie_handle = Some (file_handles gh h sections ! i),
            ie_start_line_number = fst (file_lines h 1 sections ! i),
            ie_prev = (if i = 0 then None else Some (i - 1)),
            ie_next = (if Suc i < length (file_records sections) then Some (Suc i) else None)\<rparr>"
proof -
  have "snd (file_lines h 1 sections ! i) = map snd (file_lines h 1 sections) ! i"
    using assms by simp
  then have "snd (file_lines h 1 sections ! i) = file_records sections ! i"
    by (simp only: map_snd_file_lines_records)
  with assms show ?thesis by (simp add: HandleIndex_init_closed entry_of_def)
qed

lemma zip_upt_fst: "length hs = n \<Longrightarrow> map fst (zip hs [0..<n]) = hs"
  by (simp add: map_fst_zip)

lemma zip_upt_snd: "length hs = n \<Longrightarrow> map snd (zip hs [0..<n]) = [0..<n]"
  by (simp add: map_snd_zip)

lemma zip_upt_keys: "length hs = n \<Longrightarrow> fst ` set (zip hs [0..<n]) = set hs"
  using zip_upt_fst [of hs n] by (metis set_map)

lemma init_index:
  "hi_index (HandleIndex_init gh h sections)
   = dict_of (zip (file_handles gh h sections) [0..<length (file_records sections)])"
  by (simp add: HandleIndex_init_closed)

lemma init_entries_length:
  "length (hi_entries (HandleIndex_init gh h sections)) = length (file_records sections)"
  by (simp add: HandleIndex_init_closed)

lemma init_index_keys:
  "fst ` set (hi_index (HandleIndex_init gh h sections)) = set (file_handles gh h sections)"
  by (simp only: init_index dict_of_keys zip_upt_keys [OF length_file_handles])

lemma init_index_values:
  "snd ` set (hi_index (HandleIndex_init gh h sections)) \<subseteq> {0..<length (file_records sections)}"
proof -
  have "snd ` set (zip (file_handles gh h sections) [0..<length (file_records sections)])
        \<subseteq> set [0..<length (file_records sections)]"
    using zip_upt_snd [OF length_file_handles, of gh h sections] by (metis order_refl set_map)
  then have "snd ` set (hi_index (HandleIndex_init gh h sections))
        \<subseteq> set [0..<length (file_records sections)]"
    unfolding init_index by (rule order_trans [OF dict_of_values])
  then show ?thesis by simp
qed


lemma file_handles_nth:
  assumes "i < length (file_records sections)"
  shows "file_handles gh h sections ! i
         = (case gh (h (file_records sections ! i)) of
              Some x \<Rightarrow> upper x
            | None \<Rightarrow> CHR ''*'' # format_X (dummy_handle_at gh h (file_records sections) i))"
  unfolding file_handles_def dummy_handle_at_def
  using assigned_handles_nth [OF assms, of gh h 1] by (simp cong: option.case_cong)

lemma filter_take_mono:
  "a \<le> b \<Longrightarrow> length (filter P (take a rs)) \<le> length (filter P (take b rs))"
proof -
  assume "a \<le> b"
  then have "take b rs = take a rs @ take (b - a) (drop a rs)"
    by (metis le_add_diff_inverse take_add)
  then show ?thesis by simp
qed

lemma dummy_handle_at_less:
  assumes "j < i" "i \<le> length rs" "gh (h (rs ! j)) = None"
  shows "dummy_handle_at gh h rs j < dummy_handle_at gh h rs i"
proof -
  from assms have "take (Suc j) rs = take j rs @ [rs ! j]"
    by (simp add: take_Suc_conv_app_nth)
  with assms(3) have "length (filter (\<lambda>r. gh (h r) = None) (take (Suc j) rs))
        = Suc (length (filter (\<lambda>r. gh (h r) = None) (take j rs)))" by simp
  moreover from assms(1) have "length (filter (\<lambda>r. gh (h r) = None) (take (Suc j) rs))
        \<le> length (filter (\<lambda>r. gh (h r) = None) (take i rs))"
    by (intro filter_take_mono) simp
  ultimately show ?thesis by (simp add: dummy_handle_at_def)
qed

lemma dummy_handle_at_first:
  assumes "i \<le> length rs" "\<forall>j<i. gh (h (rs ! j)) \<noteq> None"
  shows "dummy_handle_at gh h rs i = 1"
proof -
  have "\<forall>r\<in>set (take i rs). gh (h r) \<noteq> None"
  proof
    fix r assume "r \<in> set (take i rs)"
    then obtain j where "j < length (take i rs)" "take i rs ! j = r"
      by (auto simp: in_set_conv_nth)
    with assms show "gh (h r) \<noteq> None" by auto
  qed
  then have "filter (\<lambda>r. gh (h r) = None) (take i rs) = []"
    by (simp add: filter_empty_conv)
  then show ?thesis by (simp add: dummy_handle_at_def)
qed

text \<open>
  C7: a record at position \<open>i\<close> of the file whose handle extraction fails gets, in its
  index entry, the synthetic handle \<open>*<hex>\<close> of the counter value \<open>dummy_handle_at\<close>
  (one more than the number of such records before it): the value is 1 for the first
  such record and strictly larger than that of every earlier such record, two such
  records at different positions carry different handles, and \<open>contains()\<close> is true for
  the handle.
\<close>

theorem C7_synthetic_handles:
  assumes "i < length (file_records sections)"
    and "get_handle (h (file_records sections ! i)) = None"
  shows "ie_tags (hi_entries (HandleIndex_init get_handle h sections) ! i)
           = file_records sections ! i
       \<and> ie_handle (hi_entries (HandleIndex_init get_handle h sections) ! i)
           = Some (CHR ''*'' # format_X (dummy_handle_at get_handle h (file_records sections) i))
       \<and> HandleIndex_contains (HandleIndex_init get_handle h sections)
           (CHR ''*'' # format_X (dummy_handle_at get_handle h (file_records sections) i))
       \<and> ((\<forall>j<i. get_handle (h (file_records sections ! j)) \<noteq> None)
            \<longrightarrow> dummy_handle_at get_handle h (file_records sections) i = 1)
       \<and> (\<forall>j<i. get_handle (h (file_records sections ! j)) = None
            \<longrightarrow> dummy_handle_at get_handle h (file_records sections) j
                < dummy_handle_at get_handle h (file_records sections) i)
       \<and> (\<forall>j<length (file_records sections).
            j \<noteq> i \<longrightarrow> get_handle (h (file_records sections ! j)) = None
            \<longrightarrow> ie_handle (hi_entries (HandleIndex_init get_handle h sections) ! j)
                \<noteq> ie_handle (hi_entries (HandleIndex_init get_handle h sections) ! i))"
proof -
  let ?recs = "file_records sections"
  let ?hi = "HandleIndex_init get_handle h sections"
  let ?hs = "file_handles get_handle h sections"
  let ?d = "dummy_handle_at get_handle h ?recs"
  have syn: "?hs ! j = CHR ''*'' # format_X (?d j)"
    if "j < length ?recs" "get_handle (h (?recs ! j)) = None" for j
    using file_handles_nth [OF that(1), of get_handle h] that(2) by simp
  have tags: "ie_tags (hi_entries ?hi ! i) = ?recs ! i"
    using init_entry [OF assms(1), of get_handle h] by simp
  have handle: "ie_handle (hi_entries ?hi ! j) = Some (CHR ''*'' # format_X (?d j))"
    if "j < length ?recs" "get_handle (h (?recs ! j)) = None" for j
    using init_entry [OF that(1), of get_handle h] syn [OF that] by simp
  have "?hs ! i \<in> set ?hs" using assms(1) by simp
  then have "CHR ''*'' # format_X (?d i) \<in> fst ` set (hi_index ?hi)"
    by (simp only: init_index_keys syn [OF assms])
  then have "map_of (hi_index ?hi) (CHR ''*'' # format_X (?d i)) \<noteq> None"
    by (simp add: map_of_eq_None_iff)
  then have contains: "HandleIndex_contains ?hi (CHR ''*'' # format_X (?d i))"
    unfolding HandleIndex_contains_def synthetic_upper .
  have first: "(\<forall>j<i. get_handle (h (?recs ! j)) \<noteq> None) \<longrightarrow> ?d i = 1"
    using assms(1) dummy_handle_at_first [of i ?recs get_handle h] by simp
  have less: "\<forall>j<i. get_handle (h (?recs ! j)) = None \<longrightarrow> ?d j < ?d i"
    using assms(1) dummy_handle_at_less [of _ i ?recs get_handle h] by simp
  have differ: "ie_handle (hi_entries ?hi ! j) \<noteq> ie_handle (hi_entries ?hi ! i)"
    if "j < length ?recs" "j \<noteq> i" "get_handle (h (?recs ! j)) = None" for j
  proof -
    have "?d j \<noteq> ?d i"
    proof (cases "j < i")
      case True
      with that(3) assms(1) have "?d j < ?d i" by (intro dummy_handle_at_less) simp_all
      then show ?thesis by simp
    next
      case False
      with that(2) have "i < j" by simp
      with that(1) assms(2) have "?d i < ?d j" by (intro dummy_handle_at_less) simp_all
      then show ?thesis by simp
    qed
    then have "format_X (?d j) \<noteq> format_X (?d i)" using format_X_inj by blast
    then show ?thesis by (simp only: handle [OF that(1,3)] handle [OF assms]) simp
  qed
  show ?thesis
  proof (intro conjI allI impI)
    show "ie_tags (hi_entries ?hi ! i) = ?recs ! i" by (rule tags)
    show "ie_handle (hi_entries ?hi ! i) = Some (CHR ''*'' # format_X (?d i))"
      by (rule handle [OF assms])
    show "HandleIndex_contains ?hi (CHR ''*'' # format_X (?d i))" by (rule contains)
    show "?d i = 1" if "\<forall>j<i. get_handle (h (?recs ! j)) \<noteq> None"
      using first that by (rule mp)
    show "?d j < ?d i" if "j < i" "get_handle (h (?recs ! j)) = None" for j
      using less that by blast
    show "ie_handle (hi_entries ?hi ! j) \<noteq> ie_handle (hi_entries ?hi ! i)"
      if "j < length ?recs" "j \<noteq> i" "get_handle (h (?recs ! j)) = None" for j
      using that by (rule differ)
  qed
qed







section \<open>Examples\<close>

lemma LineIndex_init_closed:
  "LineIndex_init tag_eq tag_lt h sections
   = Inr \<lparr>li_entity_index = index_of_lines Map.empty (file_lines h 1 sections),
          li_line_index = file_lines h 1 sections,
          li_max_line_number =
            (if file_lines h 1 sections \<noteq> []
             then fst (last (file_lines h 1 sections))
                  + int (length (h (snd (last (file_lines h 1 sections))))) * 2 - 1
             else 1)\<rparr>"
  by (simp add: LineIndex_init_def build_line_index_eq build_entity_index_eq)

lemma example_heap_simps:
  "example_heap 10 = []"
  "example_heap 11 = [mk_tag 110 0 (StrVal ''SECTION''), mk_tag 111 2 (StrVal ''HEADER''),
                      mk_tag 112 9 (StrVal ''$ACADVER'')]"
  "example_heap 12 = [mk_tag 120 0 (StrVal ''LINE''), mk_tag 121 5 (StrVal ''1F'')]"
  "example_heap 13 = [mk_tag 130 0 (StrVal ''CIRCLE''), mk_tag 131 5 (StrVal ''2A''),
                      mk_tag 132 8 (StrVal ''0''), mk_tag 133 40 (FloatVal ''1.5'')]"
  "example_heap 14 = [mk_tag 140 0 (StrVal ''POINT''), mk_tag 141 5 (StrVal ''1F'')]"
  "example_heap 15 = [mk_tag 150 70 (IntVal 10)]"
  "example_heap 16 = [mk_tag 160 0 (StrVal ''TEXT''), mk_tag 161 1 (StrVal ''Room 10'')]"
  "example_heap 17 = [mk_tag 170 0 (StrVal ''ARC''), mk_tag 171 5 (StrVal ''ab'')]"
  "example_heap 18 = [mk_tag 110 0 (StrVal ''SECTION'')]"
  by (simp_all add: example_heap_def)

lemma example_get_handle_simps:
  "example_get_handle [] = None"
  "example_get_handle (example_heap 11) = None"
  "example_get_handle (example_heap 12) = Some ''1F''"
  "example_get_handle (example_heap 13) = Some ''2A''"
  "example_get_handle (example_heap 14) = Some ''1F''"
  "example_get_handle (example_heap 15) = None"
  "example_get_handle (example_heap 17) = Some ''ab''"
  "example_get_handle (example_heap 18) = None"
  by (simp_all add: example_heap_def example_get_handle_def mk_tag_def)

lemma example_line_index_init:
  "LineIndex_init tag_eq tag_lt example_heap example_sections = Inr example_line_index"
  by (simp add: LineIndex_init_closed example_sections_def example_line_index_def
      example_heap_simps index_of_lines_simps)

lemma example_ties_index_init:
  "LineIndex_init tag_eq tag_lt example_heap [(''HEADER'', [10, 12])] = Inr example_ties_index"
  by (simp add: LineIndex_init_closed example_ties_index_def example_heap_simps
      index_of_lines_simps)

lemma example_handle_index:
  "HandleIndex_init example_get_handle example_heap example_sections
   = \<lparr>hi_index = [(''*1'', 0), (''1F'', 1), (''2A'', 2)],
      hi_max_line_number = 20,
      hi_entries =
        [\<lparr>ie_tags = 11, ie_handle = Some ''*1'', ie_start_line_number = 1,
           ie_prev = None, ie_next = Some 1\<rparr>,
         \<lparr>ie_tags = 12, ie_handle = Some ''1F'', ie_start_line_number = 9,
           ie_prev = Some 0, ie_next = Some 2\<rparr>,
         \<lparr>ie_tags = 13, ie_handle = Some ''2A'', ie_start_line_number = 13,
           ie_prev = Some 1, ie_next = None\<rparr>]\<rparr>"
  by (simp add: HandleIndex_init_def build_section_def build_entity_def build_init_def Let_def
      example_sections_def example_heap_simps example_get_handle_def mk_tag_def
      upper_def upper_char_def format_X.simps hex_digit_def)

text \<open>
  C1 (as stated): with \<open>HEADER = [rec1]\<close> (3 tags) and \<open>ENTITIES = [rec2, rec3]\<close> (2 and 4
  tags) the start line of \<open>rec3\<close> is 15 and \<open>max_line_number\<close> is 22. The two lines for
  the missing \<open>ENDSEC\<close> are added after a section only, not between two records of one
  section: for the records 11, 12, 13 of the example the built index gives \<open>rec3\<close> the
  start line 13 and \<open>max_line_number\<close> 20.
\<close>

theorem C1_start_lines_counterexample:
  "LineIndex_init example_tag_eq example_tag_lt example_heap
     [(''HEADER'', [11]), (''ENTITIES'', [12, 13])] = Inr example_line_index
   \<and> length (example_heap 11) = 3 \<and> length (example_heap 12) = 2 \<and> length (example_heap 13) = 4
   \<and> LineIndex_get_start_line_for_entity example_line_index 13 \<noteq> 15
   \<and> li_max_line_number example_line_index \<noteq> 22"
  using example_line_index_init [of example_tag_eq example_tag_lt]
  by (simp add: example_sections_def example_heap_simps example_line_index_def
      LineIndex_get_start_line_for_entity_def)

text \<open>
  C1 (amended): for the section mapping \<open>HEADER = [rec1]\<close>, \<open>ENTITIES = [rec2, rec3]\<close> with
  3, 2 and 4 tags the built LineIndex assigns the start lines \<open>rec1 = 1\<close>, \<open>rec2 = 9\<close>,
  \<open>rec3 = 13\<close>, and \<open>max_line_number = 20\<close>.
\<close>

theorem C1_start_lines:
  assumes "length (h r1) = 3" "length (h r2) = 2" "length (h r3) = 4"
  shows "\<exists>li. LineIndex_init tag_eq tag_lt h [(''HEADER'', [r1]), (''ENTITIES'', [r2, r3])] = Inr li
             \<and> li_line_index li = [(1, r1), (9, r2), (13, r3)]
             \<and> LineIndex_get_start_line_for_entity li r1 = 1
             \<and> LineIndex_get_start_line_for_entity li r2 = 9
             \<and> LineIndex_get_start_line_for_entity li r3 = 13
             \<and> li_max_line_number li = 20"
proof -
  from assms have "r1 \<noteq> r2" "r2 \<noteq> r3" "r1 \<noteq> r3" by auto
  with assms show ?thesis
    by (simp add: LineIndex_init_closed index_of_lines_simps
        LineIndex_get_start_line_for_entity_def)
qed

theorem C1_start_lines_witness:
  "\<exists>li. LineIndex_init example_tag_eq example_tag_lt example_heap
           [(''HEADER'', [11]), (''ENTITIES'', [12, 13])] = Inr li
      \<and> li_line_index li = [(1, 11), (9, 12), (13, 13)]
      \<and> LineIndex_get_start_line_for_entity li 11 = 1
      \<and> LineIndex_get_start_line_for_entity li 12 = 9
      \<and> LineIndex_get_start_line_for_entity li 13 = 13
      \<and> li_max_line_number li = 20"
  using C1_start_lines [of example_heap 11 12 13 example_tag_eq example_tag_lt]
  by (simp add: example_heap_simps)

lemma section_lines_last:
  "es \<noteq> [] \<Longrightarrow>
   fst (last (section_lines h n es)) + int (length (h (snd (last (section_lines h n es))))) * 2
   = section_end h n es"
proof (induction es arbitrary: n)
  case Nil
  then show ?case by simp
next
  case (Cons e es)
  then show ?case by (cases es) simp_all
qed

lemma max_line_numbers_agree:
  assumes "sections \<noteq> []" "snd (last sections) \<noteq> []"
  shows "file_end h n sections - 3
         = fst (last (file_lines h n sections))
           + int (length (h (snd (last (file_lines h n sections))))) * 2 - 1"
  using assms
proof (induction sections arbitrary: n)
  case Nil
  then show ?case by simp
next
  case (Cons item rest)
  show ?case
  proof (cases "rest = []")
    case True
    with Cons.prems section_lines_last [of "snd item" h n] show ?thesis by simp
  next
    case False
    with Cons.prems have last: "snd (last rest) \<noteq> []" by simp
    then have "last rest \<in> set rest" "snd (last rest) \<noteq> []" using False by simp_all
    then have "file_records rest \<noteq> []" by (auto simp: file_records_def)
    then have "file_lines h (section_end h n (snd item) + 2) rest \<noteq> []"
      by (metis length_file_lines length_0_conv)
    with Cons.IH [OF False last, of "section_end h n (snd item) + 2"] show ?thesis by simp
  qed
qed

text \<open>
  C3: the claim is that \<open>HandleIndex\<close> and \<open>LineIndex\<close> compute the same
  \<open>max_line_number\<close> for every section mapping. \<open>HandleIndex._build\<close> always takes
  \<open>start_line_number - 3\<close>, \<open>LineIndex.__init__\<close> takes the end of the last record and 1
  when there is none. For \<open>{"HEADER": []}\<close> the values are 0 and 1, for the empty mapping
  \<open>- 2\<close> and 1, and for \<open>{"HEADER": [rec], "ENTITIES": []}\<close> with a record of 3 tags 8
  and 6. (\<open>max_line_numbers_agree\<close>: they agree when the last section has a record.)
\<close>

theorem C3_max_line_number_differs:
  "hi_max_line_number (HandleIndex_init example_get_handle example_heap [(''HEADER'', [])]) = 0
   \<and> LineIndex_init example_tag_eq example_tag_lt example_heap [(''HEADER'', [])]
       = Inr example_empty_index
   \<and> li_max_line_number example_empty_index = 1
   \<and> hi_max_line_number (HandleIndex_init example_get_handle example_heap []) = - 2
   \<and> LineIndex_init example_tag_eq example_tag_lt example_heap [] = Inr example_empty_index
   \<and> hi_max_line_number (HandleIndex_init example_get_handle example_heap
         [(''HEADER'', [11]), (''ENTITIES'', [])]) = 8
   \<and> map_sum id li_max_line_number
         (LineIndex_init example_tag_eq example_tag_lt example_heap
            [(''HEADER'', [11]), (''ENTITIES'', [])]) = Inr 6"
  by (simp add: HandleIndex_init_closed LineIndex_init_closed example_empty_index_def
      example_heap_simps index_of_lines_simps)

text \<open>
  C4 (as stated) fails for a record without tags: it takes no lines, so the record after
  it in the same section has the same start line. For \<open>HEADER = [10, 12]\<close> with the empty
  record 10 the start lines are \<open>[1, 1]\<close>, and \<open>get_entity_at_line\<close> at the start line of
  record 10 returns record 12.
\<close>

theorem C4_strictly_increasing_counterexample:
  "LineIndex_init example_tag_eq example_tag_lt example_heap [(''HEADER'', [10, 12])]
     = Inr example_ties_index
   \<and> map fst (li_line_index example_ties_index) = [1, 1]
   \<and> \<not> sorted_wrt (<) (map fst (li_line_index example_ties_index))
   \<and> LineIndex_get_start_line_for_entity example_ties_index 10 = 1
   \<and> LineIndex_get_entity_at_line example_ties_index 1 = Some 12"
  using example_ties_index_init [of example_tag_eq example_tag_lt]
  by (simp add: example_ties_index_def LineIndex_get_start_line_for_entity_def
      LineIndex_get_entity_at_line_def)



theorem C4_line_index_round_trip_witness:
  "LineIndex_init example_tag_eq example_tag_lt example_heap example_sections
     = Inr example_line_index
   \<and> sorted_wrt (<) (map fst (li_line_index example_line_index))
   \<and> LineIndex_get_entity_at_line example_line_index
         (LineIndex_get_start_line_for_entity example_line_index 11) = Some 11
   \<and> LineIndex_get_entity_at_line example_line_index
         (LineIndex_get_start_line_for_entity example_line_index 12) = Some 12
   \<and> LineIndex_get_entity_at_line example_line_index
         (LineIndex_get_start_line_for_entity example_line_index 13) = Some 13"
proof -
  have ne: "\<forall>r\<in>set (concat (map snd example_sections)). example_heap r \<noteq> []"
    by (simp add: example_sections_def example_heap_simps)
  from C4_line_index_round_trip [OF ne, of example_tag_eq example_tag_lt]
  show ?thesis
    by (simp add: example_line_index_init) (simp add: example_sections_def)
qed




lemma lower_case_handle_raises:
  "HandleIndex_contains
      (HandleIndex_init example_get_handle example_heap [(''ENTITIES'', [12, 17, 13])]) ''ab''
   \<and> HandleIndex_next_entity example_get_handle example_heap
      (HandleIndex_init example_get_handle example_heap [(''ENTITIES'', [12, 17, 13])]) 17
     = Inl AttributeError"
  by (simp add: HandleIndex_next_entity_def HandleIndex_get_handle_def HandleIndex_contains_def
      HandleIndex_init_def build_section_def build_entity_def build_init_def Let_def
      example_heap_simps example_get_handle_def mk_tag_def upper_def upper_char_def)


theorem C7_synthetic_handles_witness:
  "ie_tags (hi_entries (HandleIndex_init example_get_handle example_heap
              [(''HEADER'', [11]), (''ENTITIES'', [12, 15])]) ! 2) = 15
   \<and> ie_handle (hi_entries (HandleIndex_init example_get_handle example_heap
              [(''HEADER'', [11]), (''ENTITIES'', [12, 15])]) ! 0) = Some ''*1''
   \<and> ie_handle (hi_entries (HandleIndex_init example_get_handle example_heap
              [(''HEADER'', [11]), (''ENTITIES'', [12, 15])]) ! 2) = Some ''*2''
   \<and> HandleIndex_contains (HandleIndex_init example_get_handle example_heap
              [(''HEADER'', [11]), (''ENTITIES'', [12, 15])]) ''*2''
   \<and> dummy_handle_at example_get_handle example_heap [11, 12, 15] 0 = 1
   \<and> dummy_handle_at example_get_handle example_heap [11, 12, 15] 2 = 2"
proof -
  let ?s = "[(''HEADER'', [11]), (''ENTITIES'', [12, 15::nat])]"
  have r: "file_records ?s = [11, 12, 15]" by (simp add: file_records_def)
  have d: "dummy_handle_at example_get_handle example_heap [11, 12, 15] 0 = 1"
    "dummy_handle_at example_get_handle example_heap [11, 12, 15] 2 = 2"
    by (simp_all add: dummy_handle_at_def example_get_handle_simps numeral_2_eq_2)
  have f: "format_X (Suc 0) = ''1''" "format_X 2 = ''2''"
    by (simp_all add: format_X.simps hex_digit_def)
  have i: "0 < length (file_records ?s)" "2 < length (file_records ?s)" by (simp_all add: r)
  have n: "example_get_handle (example_heap (file_records ?s ! 0)) = None"
    "example_get_handle (example_heap (file_records ?s ! 2)) = None"
    by (simp_all add: r example_get_handle_simps)
  from C7_synthetic_handles [where i = 0 and sections = ?s and get_handle = example_get_handle
        and h = example_heap, OF i(1) n(1)]
    C7_synthetic_handles [where i = 2 and sections = ?s and get_handle = example_get_handle
        and h = example_heap, OF i(2) n(2)]
  show ?thesis by (simp add: r d f)
qed

lemma line_scan_before: "number < fst x \<Longrightarrow> line_scan number e (x # rest) = e"
  by (cases x) simp

lemma entry_scan_before:
  "number < ie_start_line_number v \<Longrightarrow> entry_scan number tags (v # vs) = tags"
  by simp

lemma init_values_empty:
  "HandleIndex_values (HandleIndex_init gh h sections) = [] \<longleftrightarrow> file_records sections = []"
proof -
  have "HandleIndex_values (HandleIndex_init gh h sections) = []
        \<longleftrightarrow> hi_index (HandleIndex_init gh h sections) = []"
    by (simp add: HandleIndex_values_def)
  also have "\<dots> \<longleftrightarrow> fst ` set (hi_index (HandleIndex_init gh h sections)) = {}" by simp
  also have "\<dots> \<longleftrightarrow> file_handles gh h sections = []" by (simp only: init_index_keys set_empty)
  also have "\<dots> \<longleftrightarrow> file_records sections = []"
    using length_file_handles [of gh h sections] by (metis length_0_conv)
  finally show ?thesis .
qed

text \<open>
  C9: the LineIndex of every section mapping is built, and its line index holds the
  records in file order. For a line number below the start line of the first entry,
  \<open>LineIndex.get_entity_at_line\<close> returns the first record and
  \<open>HandleIndex.get_entity_at_line\<close> returns \<open>None\<close>; on an empty index both return \<open>None\<close>.
  Each index is empty exactly when the mapping has no record.
\<close>

theorem C9_low_end_clamp:
  "\<exists>li. LineIndex_init tag_eq tag_lt h sections = Inr li
      \<and> map snd (li_line_index li) = file_records sections
      \<and> (li_line_index li \<noteq> [] \<longrightarrow> number < fst (hd (li_line_index li)) \<longrightarrow>
            LineIndex_get_entity_at_line li number = Some (hd (file_records sections)))
      \<and> (HandleIndex_values (HandleIndex_init get_handle h sections) \<noteq> [] \<longrightarrow>
            number < ie_start_line_number
                       (hd (HandleIndex_values (HandleIndex_init get_handle h sections))) \<longrightarrow>
            HandleIndex_get_entity_at_line (HandleIndex_init get_handle h sections) number = None)
      \<and> (li_line_index li = [] \<longrightarrow> LineIndex_get_entity_at_line li number = None)
      \<and> (HandleIndex_values (HandleIndex_init get_handle h sections) = [] \<longrightarrow>
            HandleIndex_get_entity_at_line (HandleIndex_init get_handle h sections) number = None)
      \<and> (li_line_index li = [] \<longleftrightarrow> file_records sections = [])
      \<and> (HandleIndex_values (HandleIndex_init get_handle h sections) = []
            \<longleftrightarrow> file_records sections = [])"
proof -
  let ?xs = "file_lines h 1 sections"
  let ?hi = "HandleIndex_init get_handle h sections"
  obtain li where li: "LineIndex_init tag_eq tag_lt h sections = Inr li"
    and idx: "li_line_index li = ?xs"
    by (simp add: LineIndex_init_closed)
  have recs: "map snd (li_line_index li) = file_records sections"
    by (simp only: idx map_snd_file_lines_records)
  have low: "LineIndex_get_entity_at_line li number = Some (hd (file_records sections))"
    if "li_line_index li \<noteq> []" "number < fst (hd (li_line_index li))"
  proof -
    from that(1) obtain x rest where x: "li_line_index li = x # rest"
      by (cases "li_line_index li") auto
    with recs have "hd (file_records sections) = snd x" by (metis list.sel(1) list.simps(9))
    with x that(2) show ?thesis
      by (simp add: LineIndex_get_entity_at_line_def line_scan_before)
  qed
  have hlow: "HandleIndex_get_entity_at_line ?hi number = None"
    if "HandleIndex_values ?hi \<noteq> []"
      "number < ie_start_line_number (hd (HandleIndex_values ?hi))"
  proof -
    from that(1) obtain v vs where "HandleIndex_values ?hi = v # vs"
      by (cases "HandleIndex_values ?hi") auto
    with that(2) show ?thesis
      by (simp add: HandleIndex_get_entity_at_line_def)
  qed
  have e1: "LineIndex_get_entity_at_line li number = None" if "li_line_index li = []"
    using that by (simp add: LineIndex_get_entity_at_line_def)
  have e2: "HandleIndex_get_entity_at_line ?hi number = None" if "HandleIndex_values ?hi = []"
    using that by (simp add: HandleIndex_get_entity_at_line_def)
  have i1: "li_line_index li = [] \<longleftrightarrow> file_records sections = []"
    using recs by (metis map_is_Nil_conv)
  show ?thesis
    using li recs low hlow e1 e2 i1 init_values_empty [of get_handle h sections] by blast
qed

theorem C9_low_end_clamp_witness:
  "LineIndex_init example_tag_eq example_tag_lt example_heap example_sections
     = Inr example_line_index
   \<and> fst (hd (li_line_index example_line_index)) = 1
   \<and> LineIndex_get_entity_at_line example_line_index 0 = Some 11
   \<and> ie_start_line_number
        (hd (HandleIndex_values
               (HandleIndex_init example_get_handle example_heap example_sections))) = 1
   \<and> HandleIndex_get_entity_at_line
        (HandleIndex_init example_get_handle example_heap example_sections) 0 = None
   \<and> LineIndex_init example_tag_eq example_tag_lt example_heap [] = Inr example_empty_index
   \<and> LineIndex_get_entity_at_line example_empty_index 0 = None
   \<and> HandleIndex_get_entity_at_line
        (HandleIndex_init example_get_handle example_heap []) 0 = None"
proof -
  have v: "HandleIndex_values (HandleIndex_init example_get_handle example_heap example_sections)
           = hi_entries (HandleIndex_init example_get_handle example_heap example_sections)"
    by (simp add: example_handle_index HandleIndex_values_def)
  have e: "LineIndex_init example_tag_eq example_tag_lt example_heap [] = Inr example_empty_index"
    by (simp add: LineIndex_init_closed example_empty_index_def index_of_lines_simps)
  have r: "file_records [] = []" "file_records example_sections = [11, 12, 13]"
    by (simp_all add: file_records_def example_sections_def)
  from C9_low_end_clamp [of example_tag_eq example_tag_lt example_heap example_sections 0
        example_get_handle]
    C9_low_end_clamp [of example_tag_eq example_tag_lt example_heap "[]" 0 example_get_handle]
  show ?thesis
    by (simp add: example_line_index_init e r v)
       (simp add: example_handle_index example_line_index_def example_empty_index_def)
qed

text \<open>
  C8: with \<open>numbers\<close> disabled, whenever \<open>find\<close> returns a record and a tag index, for any
  search term, direction and cursor, the tag at that index has a group code of string
  type. With \<open>numbers\<close> enabled and the search term \<open>"10"\<close>, \<open>_match\<close> accepts the integer
  value 10 at a code that is not of string type, and \<open>find\<close> returns the first record at
  tag index 0 when its first tag is such a tag.
\<close>

theorem C8_numbers_matching:
  "(\<not> si_numbers s \<longrightarrow>
      SearchIndex_find tag_type h search_term backward reset_index s = Inr (s', Some entity, tag_index) \<longrightarrow>
      (\<exists>tag. py_index (h entity) tag_index = Some tag \<and> tag_type (tag_code tag) = PyStr))
   \<and> (si_numbers s \<longrightarrow> tag_type code \<noteq> PyStr \<longrightarrow>
        SearchIndex_match tag_type (SearchIndex_reset_search_term ''10'' s) code (IntVal 10)
        = Inr True)
   \<and> (si_numbers s \<longrightarrow> si_entities s = e # es \<longrightarrow> h e = t # ts \<longrightarrow>
        tag_value t = IntVal 10 \<longrightarrow> tag_type (tag_code t) \<noteq> PyStr \<longrightarrow>
        (\<exists>s''. SearchIndex_find tag_type h ''10'' False True s = Inr (s'', Some e, 0)))"
proof (intro conjI impI)
  assume "\<not> si_numbers s"
    and "SearchIndex_find tag_type h search_term backward reset_index s = Inr (s', Some entity, tag_index)"
  then show "\<exists>tag. py_index (h entity) tag_index = Some tag \<and> tag_type (tag_code tag) = PyStr"
    by (rule find_numbers_disabled)
next
  assume "si_numbers s" "tag_type code \<noteq> PyStr"
  then show "SearchIndex_match tag_type (SearchIndex_reset_search_term ''10'' s) code (IntVal 10)
             = Inr True"
    by (intro match_int_10)
       (simp_all add: SearchIndex_reset_search_term_def lower_def lower_char_def)
next
  assume "si_numbers s" "si_entities s = e # es" "h e = t # ts" "tag_value t = IntVal 10"
    "tag_type (tag_code t) \<noteq> PyStr"
  then show "\<exists>s''. SearchIndex_find tag_type h ''10'' False True s = Inr (s'', Some e, 0)"
    by (rule find_int_10)
qed

theorem C8_numbers_matching_witness:
  "SearchIndex_find example_tag_type example_heap ''10'' False True example_search
     = Inr (example_search\<lparr>si_current_entity_index := 1, si_current_tag_index := 1,
                            si_search_term := Some ''10'', si_search_term_lower := Some ''10'',
                            si_end_of_index := True\<rparr>, Some 16, 1)
   \<and> (\<exists>tag. py_index (example_heap 16) 1 = Some tag \<and> example_tag_type (tag_code tag) = PyStr)
   \<and> SearchIndex_match example_tag_type
        (SearchIndex_reset_search_term ''10'' (example_search\<lparr>si_numbers := True\<rparr>)) 70
        (IntVal 10) = Inr True
   \<and> (\<exists>s''. SearchIndex_find example_tag_type example_heap ''10'' False True
               (example_search\<lparr>si_numbers := True\<rparr>) = Inr (s'', Some 15, 0))"
proof -
  let ?found = "example_search\<lparr>si_current_entity_index := 1, si_current_tag_index := 1,
                            si_search_term := Some ''10'', si_search_term_lower := Some ''10'',
                            si_end_of_index := True\<rparr>"
  have a: "\<not> si_numbers example_search" by (simp add: example_search_def)
  have b: "si_numbers (example_search\<lparr>si_numbers := True\<rparr>)"
    "si_entities (example_search\<lparr>si_numbers := True\<rparr>) = 15 # [16]"
    "example_heap 15 = mk_tag 150 70 (IntVal 10) # []"
    "tag_value (mk_tag 150 70 (IntVal 10)) = IntVal 10"
    "example_tag_type (tag_code (mk_tag 150 70 (IntVal 10))) \<noteq> PyStr"
    "example_tag_type 70 \<noteq> PyStr"
    by (simp_all add: example_search_def example_heap_simps mk_tag_def example_tag_type_def)
  from C8_numbers_matching [where s = example_search and tag_type = example_tag_type
        and h = example_heap and search_term = "''10''" and backward = False and reset_index = True
        and s' = ?found and entity = 16 and tag_index = 1]
    C8_numbers_matching [where s = "example_search\<lparr>si_numbers := True\<rparr>"
        and tag_type = example_tag_type and h = example_heap and code = 70 and e = 15
        and es = "[16]" and t = "mk_tag 150 70 (IntVal 10)" and ts = "[]"]
    a b example_find
  show ?thesis by simp
qed

end
